theory Spec2Isabelle
  imports Main "HOL-Library.Word"
begin

unbundle bit_operations_syntax

section \<open>Data model of mintox/tcp_server.go\<close>

text \<open>
  Go's \<open>byte\<close>/\<open>uint8\<close>, \<open>uint16\<close> and \<open>int32\<close> are words of that width; a \<open>[]byte\<close> is a
  list of bytes. A slice expression that Go evaluates out of range is a panic, written
  out as a branch where the source has one.
\<close>

type_synonym byte = "8 word"
type_synonym bytes = "byte list"
type_synonym uint16 = "16 word"
type_synonym int32 = "32 word"

text \<open>
  Modelled from the spec: \<open>PUBLIC_KEY_SIZE\<close> and \<open>NONCE_SIZE\<close> are declared in a file of the
  package that is not under src/; the spec fixes a key at 32 bytes and a nonce at 24.
\<close>

definition PUBLIC_KEY_SIZE :: nat where [simp]: "PUBLIC_KEY_SIZE = 32"
definition NONCE_SIZE :: nat where [simp]: "NONCE_SIZE = 24"

definition NUM_RESERVED_PORTS :: byte where [simp]: "NUM_RESERVED_PORTS = 16"

definition TCP_PACKET_ROUTING_REQUEST :: byte where [simp]: "TCP_PACKET_ROUTING_REQUEST = 0"
definition TCP_PACKET_ROUTING_RESPONSE :: byte where [simp]: "TCP_PACKET_ROUTING_RESPONSE = 1"
definition TCP_PACKET_CONNECTION_NOTIFICATION :: byte where
  [simp]: "TCP_PACKET_CONNECTION_NOTIFICATION = 2"
definition TCP_PACKET_DISCONNECT_NOTIFICATION :: byte where
  [simp]: "TCP_PACKET_DISCONNECT_NOTIFICATION = 3"
definition TCP_PACKET_PING :: byte where [simp]: "TCP_PACKET_PING = 4"
definition TCP_PACKET_PONG :: byte where [simp]: "TCP_PACKET_PONG = 5"
definition TCP_PACKET_OOB_SEND :: byte where [simp]: "TCP_PACKET_OOB_SEND = 6"
definition TCP_PACKET_OOB_RECV :: byte where [simp]: "TCP_PACKET_OOB_RECV = 7"
definition TCP_PACKET_ONION_REQUEST :: byte where [simp]: "TCP_PACKET_ONION_REQUEST = 8"
definition TCP_PACKET_ONION_RESPONSE :: byte where [simp]: "TCP_PACKET_ONION_RESPONSE = 9"

definition TCP_STATUS_NO_STATUS :: byte where [simp]: "TCP_STATUS_NO_STATUS = 0"
definition TCP_STATUS_CONNECTED :: byte where [simp]: "TCP_STATUS_CONNECTED = 1"
definition TCP_STATUS_UNCONFIRMED :: byte where [simp]: "TCP_STATUS_UNCONFIRMED = 2"
definition TCP_STATUS_CONFIRMED :: byte where [simp]: "TCP_STATUS_CONFIRMED = 3"

text \<open>
  Go errors as values. \<open>EOF\<close> is \<open>io.EOF\<close>; \<open>DataTooLong\<close> and \<open>CtrlQueueFull\<close> are the two
  errors \<open>SendCtrlPacket\<close> builds; \<open>ExtError\<close> is any error of a callee outside this file
  (the crypto wrappers, the socket). A nil error is \<open>None\<close>.
\<close>

datatype error = EOF | DataTooLong nat nat | CtrlQueueFull | ExtError string

text \<open>
  The three ways the source leaves a function without returning: a failed \<open>gopp.Assert\<close>,
  \<open>log.Fatalln\<close> (which ends the process), and a run-time panic of Go itself (an index or a
  slice bound out of range).
\<close>

datatype abort = AssertFailed string | Fatalln string | GoPanic string

text \<open>The lifecycle callbacks the connection invokes, in the order it invokes them.\<close>

datatype callback = CallOnNetRecv nat | CallOnClosed | CallOnConfirmed | CallOnNetSent nat

text \<open>
  The callees that are not under src/, taken as parameters: the MAC size and the
  authenticated encryption, the shared-secret derivation and the nonce increment of the
  package's crypto wrappers. Each returns Go's pair of a value and an error; the source
  keeps using the value whatever the error is.
\<close>

record crypto =
  MAC_SIZE :: nat
  EncryptDataSymmetric :: "bytes \<Rightarrow> bytes \<Rightarrow> bytes \<Rightarrow> bytes \<times> error option"
  DecryptDataSymmetric :: "bytes \<Rightarrow> bytes \<Rightarrow> bytes \<Rightarrow> bytes \<times> error option"
  CBBeforeNm :: "bytes \<Rightarrow> bytes \<Rightarrow> bytes \<times> error option"
  Incr :: "bytes \<Rightarrow> bytes"

text \<open>
  What the environment decides during one call: the values \<open>CBRandomNonce\<close> and
  \<open>NewCBKeyPair\<close> draw in \<open>HandleHandshake\<close>, and the duration (in nanoseconds) that
  \<open>SendCtrlPacket\<close> measures around its enqueue. Each is read at most once while the status
  moves forward.
\<close>

record env =
  rnd_SentNonce :: bytes
  rnd_srvTmpNonce :: bytes
  rnd_tmpPubkey :: bytes
  rnd_tmpSeckey :: bytes
  send_dtime :: int

text \<open>
  \<open>TCPSecureConn\<close>. Keys and nonces are the byte values behind the source's pointers (a
  \<open>CryptoKey\<close> is its 32 bytes, a \<open>CBNonce\<close> its 24); the ring buffer \<open>crbuf\<close> is its
  readable bytes in FIFO order with its capacity beside it; a channel is the list of its
  queued items, oldest first, with its capacity beside it. A callback field is \<open>True\<close>
  when the source's function value is not nil, and \<open>calls\<close> records the invocations.
  \<open>sock_writes\<close> records every byte string handed to \<open>Sock.Write\<close>.
\<close>

record TCPSecureConn =
  Pubkey :: bytes
  Seckey :: bytes
  Shrkey :: bytes
  RecvNonce :: bytes
  SentNonce :: bytes
  Status :: byte
  crbuf :: bytes
  crbuf_cap :: nat
  cwctrlq :: "bytes list"
  cwctrlq_cap :: nat
  cwctrldlen :: int32
  cwdataq :: "bytes list"
  cwdataq_cap :: nat
  cwdatadlen :: int32
  OnNetRecv :: bool
  OnClosed :: bool
  OnConfirmed :: bool
  OnNetSent :: bool
  calls :: "callback list"
  sock_writes :: "bytes list"

definition NewTCPSecureConn :: TCPSecureConn where
  "NewTCPSecureConn =
     \<lparr>Pubkey = [], Seckey = [], Shrkey = [], RecvNonce = [], SentNonce = [],
      Status = 0, crbuf = [], crbuf_cap = 1024 * 1024,
      cwctrlq = [], cwctrlq_cap = 64, cwctrldlen = 0,
      cwdataq = [], cwdataq_cap = 128, cwdatadlen = 0,
      OnNetRecv = False, OnClosed = False, OnConfirmed = False, OnNetSent = False,
      calls = [], sock_writes = []\<rparr>"

section \<open>Framing\<close>

text \<open>\<open>binary.BigEndian\<close> on a \<open>uint16\<close>: the high byte first.\<close>

definition PutUint16 :: "uint16 \<Rightarrow> bytes" where
  "PutUint16 v = [ucast (drop_bit 8 v), ucast v]"

definition Uint16 :: "bytes \<Rightarrow> uint16" where
  "Uint16 b = push_bit 8 (ucast (b ! 0)) OR ucast (b ! 1)"

text \<open>
  \<open>binary.Read(r, binary.BigEndian, &v)\<close> for a \<open>uint16\<close>: with fewer than two bytes to
  read it returns an error and leaves \<open>v\<close> as it was.
\<close>

definition binary_Read :: "bytes \<Rightarrow> uint16 \<Rightarrow> uint16 \<times> error option" where
  "binary_Read b v =
     (if length b < 2 then (v, Some (ExtError ''unexpected EOF'')) else (Uint16 b, None))"

text \<open>
  \<open>CreatePacket\<close>: the ciphertext under the session key and the send nonce, behind its
  length converted to \<open>uint16\<close> (Go's conversion keeps the low 16 bits). The error of the
  encryption is returned with the frame, which is built whatever the error is.
\<close>

definition CreatePacket :: "crypto \<Rightarrow> TCPSecureConn \<Rightarrow> bytes \<Rightarrow> bytes \<times> error option" where
  "CreatePacket cr this plain =
     (let (encdat, err) = EncryptDataSymmetric cr (Shrkey this) (SentNonce this) plain;
          encpkt = PutUint16 (of_nat (length encdat)) @ encdat
      in (encpkt, err))"

text \<open>
  \<open>Unpacket\<close>: reads the length, decrypts \<open>encpkt[2:]\<close> under the session key and the
  receive nonce, and increments the receive nonce. The slice expression panics on a frame
  shorter than two bytes. Result: the connection, \<open>datlen\<close>, \<open>plnpkt\<close> and \<open>err\<close>.
\<close>

definition Unpacket ::
  "crypto \<Rightarrow> TCPSecureConn \<Rightarrow> bytes \<Rightarrow> abort + (TCPSecureConn \<times> uint16 \<times> bytes \<times> error option)"
where
  "Unpacket cr this encpkt =
     (let (datlen, err0) = binary_Read encpkt 0 in
      if length encpkt < 2 then Inl (GoPanic ''slice bounds out of range'')
      else
        let (plnpkt, err) =
              DecryptDataSymmetric cr (Shrkey this) (RecvNonce this) (drop 2 encpkt);
            this' = this\<lparr>RecvNonce := Incr cr (RecvNonce this)\<rparr>
        in Inr (this', datlen, plnpkt, err))"

section \<open>Outbound path\<close>

text \<open>
  \<open>WritePacket\<close>: \<open>wres\<close> is what \<open>Sock.Write\<close> returns (bytes written, error). The send
  nonce is incremented when that error is nil.
\<close>

definition WritePacket ::
  "crypto \<Rightarrow> TCPSecureConn \<Rightarrow> bytes \<Rightarrow> nat \<times> error option
     \<Rightarrow> TCPSecureConn \<times> nat \<times> error option"
where
  "WritePacket cr this data wres =
     (let (encpkt, err0) = CreatePacket cr this data;
          (wn, err) = wres;
          this1 = this\<lparr>sock_writes := sock_writes this @ [encpkt]\<rparr>;
          this2 = (if err = None then this1\<lparr>SentNonce := Incr cr (SentNonce this1)\<rparr>
                   else this1)
      in (this2, wn, err))"

text \<open>
  \<open>SendCtrlPacket\<close>: \<open>dtime\<close> is the duration in nanoseconds the source measures around the
  \<open>select\<close>. The \<open>select\<close> sends when the channel has room and takes its \<open>default\<close>
  otherwise. The returned \<open>encpkt\<close> is always nil.
\<close>

definition SendCtrlPacket ::
  "TCPSecureConn \<Rightarrow> bytes \<Rightarrow> int \<Rightarrow> abort + (TCPSecureConn \<times> bytes \<times> error option)"
where
  "SendCtrlPacket this data dtime =
     (if length data > 2048 then Inr (this, [], Some (DataTooLong (length data) 2048))
      else if length (cwctrlq this) \<ge> cwctrlq_cap this then Inr (this, [], Some CtrlQueueFull)
      else if length (cwctrlq this) < cwctrlq_cap this then
        (let this' = this\<lparr>cwctrlq := cwctrlq this @ [data],
                            cwctrldlen := cwctrldlen this + of_nat (length data)\<rparr>
         in if dtime > 5 * 1000000 then Inl (Fatalln ''send use too long'')
            else Inr (this', [], None))
      else Inr (this, [], Some CtrlQueueFull))"

text \<open>
  \<open>HandlePingRequest\<close>: a PONG carrying \<open>rpkt[1:]\<close>, handed to \<open>SendCtrlPacket\<close>, whose
  result is dropped.
\<close>

definition HandlePingRequest :: "TCPSecureConn \<Rightarrow> bytes \<Rightarrow> int \<Rightarrow> abort + TCPSecureConn" where
  "HandlePingRequest this rpkt dtime =
     (if length rpkt < 1 then Inl (GoPanic ''slice bounds out of range'')
      else
        let plnpkt = [TCP_PACKET_PONG] @ drop 1 rpkt in
        case SendCtrlPacket this plnpkt dtime of
          Inl a \<Rightarrow> Inl a
        | Inr (this', _, _) \<Rightarrow> Inr this')"

section \<open>Handshake\<close>

text \<open>
  \<open>HandleHandshake\<close>. The slice expressions on \<open>rdbuf\<close> and on the decrypted blob panic when
  the slice is too short (a slice's capacity is taken to be its length). No error of a
  callee stops the function.
\<close>

definition HandleHandshake ::
  "crypto \<Rightarrow> env \<Rightarrow> TCPSecureConn \<Rightarrow> bytes \<Rightarrow> abort + TCPSecureConn"
where
  "HandleHandshake cr e this rdbuf =
     (if length rdbuf < PUBLIC_KEY_SIZE + NONCE_SIZE
      then Inl (GoPanic ''slice bounds out of range'')
      else
        let cliPubkey = take PUBLIC_KEY_SIZE rdbuf;
            cliTmpNonce = take NONCE_SIZE (drop PUBLIC_KEY_SIZE rdbuf);
            (shrkey, err1) = CBBeforeNm cr cliPubkey (Seckey this);
            this1 = this\<lparr>Pubkey := cliPubkey\<rparr>;
            (cliplnpkt, err2) =
              DecryptDataSymmetric cr shrkey cliTmpNonce
                (drop (PUBLIC_KEY_SIZE + NONCE_SIZE) rdbuf)
        in
        if length cliplnpkt < PUBLIC_KEY_SIZE + NONCE_SIZE
        then Inl (GoPanic ''slice bounds out of range'')
        else
          let hstmppk = take PUBLIC_KEY_SIZE cliplnpkt;
              this2 = this1\<lparr>RecvNonce := take NONCE_SIZE (drop PUBLIC_KEY_SIZE cliplnpkt)\<rparr>;
              this3 = this2\<lparr>SentNonce := rnd_SentNonce e\<rparr>;
              srvTmpNonce = rnd_srvTmpNonce e;
              tmpPubkey = rnd_tmpPubkey e;
              tmpSeckey = rnd_tmpSeckey e;
              this4 = this3\<lparr>Shrkey := fst (CBBeforeNm cr hstmppk tmpSeckey)\<rparr>;
              srvplnpkt = tmpPubkey @ SentNonce this4;
              (encpkt, err3) = EncryptDataSymmetric cr shrkey srvTmpNonce srvplnpkt;
              wrbuf = srvTmpNonce @ encpkt
          in Inr (this4\<lparr>sock_writes := sock_writes this4 @ [wrbuf]\<rparr>))"

section \<open>Inbound decode loop\<close>

text \<open>
  The first \<open>switch\<close> of \<open>doReadPacket\<close>'s loop body: it either returns from the function
  (\<open>NeedMore\<close>), or goes on with \<open>rdbuf\<close> (\<open>Frame\<close>), or aborts. \<open>crbuf.Read(p)\<close> moves
  \<open>min (len p) (crbuf.Len())\<close> bytes out of the buffer. \<open>2+*nxtpktlen\<close> is \<open>uint16\<close>
  arithmetic, so it wraps; \<open>rdbuf[2:]\<close> panics when \<open>rdbuf\<close> is shorter than two bytes.
  The \<open>binary.Write\<close> through \<open>gopp.NewBufferBuf(rdbuf).WBufAt(0)\<close> puts the length back
  into the first two bytes of \<open>rdbuf\<close>, where \<open>Unpacket\<close> reads it.
\<close>

datatype frame_read =
  NeedMore TCPSecureConn uint16
| Frame bytes TCPSecureConn uint16
| ReadAbort abort

definition handshake_request_size :: "crypto \<Rightarrow> uint16" where
  "handshake_request_size cr = of_nat ((PUBLIC_KEY_SIZE + NONCE_SIZE) * 2 + MAC_SIZE cr)"

text \<open>The case of \<open>TCP_STATUS_NO_STATUS\<close>: the handshake request, read without a look at
  how much is buffered.\<close>

definition read_handshake_request :: "crypto \<Rightarrow> TCPSecureConn \<Rightarrow> frame_read" where
  "read_handshake_request cr this =
     (let nxt = handshake_request_size cr;
          rdbuf = take (unat nxt) (crbuf this);
          rn = length rdbuf;
          this' = this\<lparr>crbuf := drop (unat nxt) (crbuf this)\<rparr>
      in if rn = unat nxt then Frame rdbuf this' nxt
         else ReadAbort (AssertFailed ''not read enough data''))"

text \<open>The case of the two data states, in its three steps: the length prefix, read when
  none is pending and two bytes are there; the wait for the payload; the payload.\<close>

definition read_pktlen :: "TCPSecureConn \<Rightarrow> uint16 \<Rightarrow> TCPSecureConn \<times> uint16" where
  "read_pktlen this nxtpktlen =
     (if nxtpktlen = 0 \<and> length (crbuf this) \<ge> 2
      then (this\<lparr>crbuf := drop 2 (crbuf this)\<rparr>,
            fst (binary_Read (take 2 (crbuf this)) nxtpktlen))
      else (this, nxtpktlen))"

definition read_payload :: "TCPSecureConn \<Rightarrow> uint16 \<Rightarrow> frame_read" where
  "read_payload this nxt =
     (if length (crbuf this) < unat nxt then NeedMore this nxt
      else if unat (2 + nxt) < 2 then ReadAbort (GoPanic ''slice bounds out of range'')
      else
        let body = take (unat (2 + nxt) - 2) (crbuf this);
            rn = length body;
            rdbuf = PutUint16 nxt @ body;
            this' = this\<lparr>crbuf := drop (unat (2 + nxt) - 2) (crbuf this)\<rparr>
        in if rn + 2 = unat (2 + nxt) then Frame rdbuf this' nxt
           else ReadAbort (AssertFailed ''not read enough data''))"

definition read_data_frame :: "TCPSecureConn \<Rightarrow> uint16 \<Rightarrow> frame_read" where
  "read_data_frame this nxtpktlen =
     (if nxtpktlen = 0 \<and> length (crbuf this) < 2 then NeedMore this nxtpktlen
      else case read_pktlen this nxtpktlen of (this1, nxt) \<Rightarrow> read_payload this1 nxt)"

definition read_frame :: "crypto \<Rightarrow> TCPSecureConn \<Rightarrow> uint16 \<Rightarrow> frame_read" where
  "read_frame cr this nxtpktlen =
     (if Status this = TCP_STATUS_NO_STATUS then read_handshake_request cr this
      else if Status this = TCP_STATUS_UNCONFIRMED \<or> Status this = TCP_STATUS_CONFIRMED
      then read_data_frame this nxtpktlen
      else Frame [] this nxtpktlen)"

text \<open>
  The second \<open>switch\<close>: the handshake, the first packet after it, and the dispatch on the
  packet type of a confirmed connection, whose handlers are all empty. \<open>plnpkt[0]\<close> panics
  on an empty plaintext. The body ends by setting \<open>*nxtpktlen\<close> to 0.
\<close>

datatype iteration =
  Continue TCPSecureConn uint16
| Return TCPSecureConn uint16
| Abort abort

definition confirmed_dispatch :: "byte \<Rightarrow> abort option" where
  "confirmed_dispatch ptype =
     (if ptype = TCP_PACKET_PING then None
      else if ptype = TCP_PACKET_PONG then None
      else if ptype = TCP_PACKET_ROUTING_RESPONSE then None
      else if ptype = TCP_PACKET_CONNECTION_NOTIFICATION then None
      else if ptype = TCP_PACKET_DISCONNECT_NOTIFICATION then None
      else if ptype = TCP_PACKET_OOB_RECV then None
      else if ptype = TCP_PACKET_ONION_RESPONSE then None
      else if ptype \<ge> NUM_RESERVED_PORTS then None
      else if ptype > TCP_PACKET_ONION_RESPONSE \<and> ptype < NUM_RESERVED_PORTS then None
      else Some (Fatalln ''wtf''))"

definition handle_first_packet ::
  "crypto \<Rightarrow> env \<Rightarrow> TCPSecureConn \<Rightarrow> bytes \<Rightarrow> iteration"
where
  "handle_first_packet cr e this rdbuf =
     (case Unpacket cr this rdbuf of
        Inl a \<Rightarrow> Abort a
      | Inr (this1, datlen, plnpkt, err) \<Rightarrow>
          if length plnpkt < 1 then Abort (GoPanic ''index out of range'')
          else
            (case HandlePingRequest this1 plnpkt (send_dtime e) of
               Inl a \<Rightarrow> Abort a
             | Inr this2 \<Rightarrow>
                 let this3 = this2\<lparr>Status := TCP_STATUS_CONFIRMED\<rparr>;
                     this4 = (if OnConfirmed this3
                              then this3\<lparr>calls := calls this3 @ [CallOnConfirmed]\<rparr>
                              else this3)
                 in Continue this4 0))"

definition handle_confirmed_packet ::
  "crypto \<Rightarrow> TCPSecureConn \<Rightarrow> bytes \<Rightarrow> iteration"
where
  "handle_confirmed_packet cr this rdbuf =
     (case Unpacket cr this rdbuf of
        Inl a \<Rightarrow> Abort a
      | Inr (this1, datlen, plnpkt, err) \<Rightarrow>
          if length plnpkt < 1 then Abort (GoPanic ''index out of range'')
          else
            (case confirmed_dispatch (plnpkt ! 0) of
               Some a \<Rightarrow> Abort a
             | None \<Rightarrow> Continue this1 0))"

definition handle_frame ::
  "crypto \<Rightarrow> env \<Rightarrow> TCPSecureConn \<Rightarrow> bytes \<Rightarrow> iteration"
where
  "handle_frame cr e this rdbuf =
     (if Status this = TCP_STATUS_NO_STATUS then
        (case HandleHandshake cr e this rdbuf of
           Inl a \<Rightarrow> Abort a
         | Inr this1 \<Rightarrow> Continue (this1\<lparr>Status := TCP_STATUS_UNCONFIRMED\<rparr>) 0)
      else if Status this = TCP_STATUS_UNCONFIRMED then handle_first_packet cr e this rdbuf
      else if Status this = TCP_STATUS_CONFIRMED then handle_confirmed_packet cr this rdbuf
      else Abort (Fatalln ''wtf''))"

text \<open>One pass through the loop body.\<close>

definition doReadPacket_body ::
  "crypto \<Rightarrow> env \<Rightarrow> TCPSecureConn \<Rightarrow> uint16 \<Rightarrow> iteration"
where
  "doReadPacket_body cr e this nxtpktlen =
     (case read_frame cr this nxtpktlen of
        NeedMore this1 nxt \<Rightarrow> Return this1 nxt
      | ReadAbort a \<Rightarrow> Abort a
      | Frame rdbuf this1 nxt \<Rightarrow> handle_frame cr e this1 rdbuf)"

section \<open>Facts the termination of the decode loop rests on\<close>

lemma Uint16_PutUint16: "Uint16 (PutUint16 v @ rest) = v"
  unfolding Uint16_def PutUint16_def
  by (simp add: bit_eq_iff bit_simps) (auto simp: bit_simps)

lemma unat_two_plus:
  "unat (2 + n :: uint16) = (if unat n < 65534 then 2 + unat n else unat n - 65534)"
proof -
  have b: "unat n < 65536" using unsigned_less [of n] by simp
  have c: "unat (2 + n) = (2 + unat n) mod 65536" by (simp add: unat_word_ariths)
  show ?thesis
  proof (cases "unat n < 65534")
    case True
    then show ?thesis using c by simp
  next
    case False
    then have "(2 + unat n) mod 65536 = 2 + unat n - 65536"
      using b by (simp add: mod_if)
    then show ?thesis using False b c by simp
  qed
qed

lemma unat_two_plus_small: "(unat (2 + n :: uint16) < 2) = (65534 \<le> unat n)"
proof -
  have b: "unat n < 65536" using unsigned_less [of n] by simp
  show ?thesis unfolding unat_two_plus using b by (cases "unat n < 65534") simp_all
qed

lemma read_payload_eq:
  "read_payload this nxt =
     (if length (crbuf this) < unat nxt then NeedMore this nxt
      else if 65534 \<le> unat nxt then ReadAbort (GoPanic ''slice bounds out of range'')
      else Frame (PutUint16 nxt @ take (unat nxt) (crbuf this))
             (this\<lparr>crbuf := drop (unat nxt) (crbuf this)\<rparr>) nxt)"
proof (cases "65534 \<le> unat nxt")
  case True
  then show ?thesis by (simp add: read_payload_def unat_two_plus_small)
next
  case False
  then have k: "unat (2 + nxt) = 2 + unat nxt" by (simp add: unat_two_plus)
  show ?thesis using False by (simp add: read_payload_def k Let_def)
qed

lemma read_handshake_request_eq:
  "read_handshake_request cr this =
     (if unat (handshake_request_size cr) \<le> length (crbuf this)
      then Frame (take (unat (handshake_request_size cr)) (crbuf this))
             (this\<lparr>crbuf := drop (unat (handshake_request_size cr)) (crbuf this)\<rparr>)
             (handshake_request_size cr)
      else ReadAbort (AssertFailed ''not read enough data''))"
  by (simp add: read_handshake_request_def Let_def min_def)

lemma SendCtrlPacket_crbuf:
  "SendCtrlPacket this d t = Inr (this', b, e) \<Longrightarrow> crbuf this' = crbuf this"
  by (auto simp: SendCtrlPacket_def Let_def split: if_splits)

lemma HandlePingRequest_crbuf:
  "HandlePingRequest this p t = Inr this' \<Longrightarrow> crbuf this' = crbuf this"
  by (auto simp: HandlePingRequest_def Let_def split: if_splits sum.splits dest: SendCtrlPacket_crbuf)

lemma Unpacket_crbuf:
  "Unpacket cr this p = Inr (this', d, pl, e) \<Longrightarrow> crbuf this' = crbuf this"
  by (auto simp: Unpacket_def Let_def split: if_splits prod.splits)

lemma HandleHandshake_crbuf:
  "HandleHandshake cr e this p = Inr this' \<Longrightarrow> crbuf this' = crbuf this"
  by (auto simp: HandleHandshake_def Let_def split: if_splits prod.splits)

lemma HandleHandshake_length:
  "HandleHandshake cr e this p = Inr this' \<Longrightarrow> 56 \<le> length p"
  by (auto simp: HandleHandshake_def Let_def split: if_splits prod.splits)

lemma handle_first_packet_crbuf:
  "handle_first_packet cr e this rdbuf = Continue this' n \<Longrightarrow> crbuf this' = crbuf this"
  by (auto simp: handle_first_packet_def Let_def split: if_splits sum.splits prod.splits
      dest!: Unpacket_crbuf HandlePingRequest_crbuf)

lemma handle_confirmed_packet_crbuf:
  "handle_confirmed_packet cr this rdbuf = Continue this' n \<Longrightarrow> crbuf this' = crbuf this"
  by (auto simp: handle_confirmed_packet_def Let_def split: if_splits sum.splits prod.splits option.splits
      dest!: Unpacket_crbuf)

lemma handle_frame_crbuf:
  "handle_frame cr e this rdbuf = Continue this' n \<Longrightarrow> crbuf this' = crbuf this"
  by (auto simp: handle_frame_def split: if_splits sum.splits
      dest!: HandleHandshake_crbuf handle_first_packet_crbuf handle_confirmed_packet_crbuf)

lemma handle_frame_handshake_length:
  "handle_frame cr e this rdbuf = Continue this' n \<Longrightarrow> Status this = 0 \<Longrightarrow> 56 \<le> length rdbuf"
  by (auto simp: handle_frame_def split: if_splits sum.splits dest!: HandleHandshake_length)


lemma read_data_frame_Frame:
  assumes "read_data_frame this n = Frame rdbuf this1 nxt"
  shows "Status this1 = Status this \<and> length (crbuf this1) < length (crbuf this)"
proof (cases "n = 0")
  case True
  with assms have len: "2 \<le> length (crbuf this)"
    by (auto simp: read_data_frame_def split: if_splits)
  with True assms show ?thesis
    by (auto simp: read_data_frame_def read_pktlen_def read_payload_eq split: if_splits)
next
  case False
  then have "0 < unat n" by (simp add: unat_gt_0)
  with False assms show ?thesis
    by (auto simp: read_data_frame_def read_pktlen_def read_payload_eq split: if_splits)
qed

lemma read_handshake_request_Frame:
  assumes "read_handshake_request cr this = Frame rdbuf this1 nxt"
  shows "Status this1 = Status this \<and> length (crbuf this1) + length rdbuf = length (crbuf this)"
  using assms by (auto simp: read_handshake_request_eq split: if_splits)

lemma doReadPacket_body_consumes:
  assumes "doReadPacket_body cr e this n = Continue this' n'"
  shows "length (crbuf this') < length (crbuf this)"
proof -
  from assms obtain rdbuf this1 nxt where
    rf: "read_frame cr this n = Frame rdbuf this1 nxt" and
    hf: "handle_frame cr e this1 rdbuf = Continue this' n'"
    by (auto simp: doReadPacket_body_def split: frame_read.splits)
  have eq: "crbuf this' = crbuf this1" using hf by (rule handle_frame_crbuf)
  consider (hs) "Status this = 0" | (data) "Status this = 2 \<or> Status this = 3"
    | (other) "Status this \<noteq> 0" "Status this \<noteq> 2" "Status this \<noteq> 3"
    by blast
  then show ?thesis
  proof cases
    case hs
    with rf have f: "read_handshake_request cr this = Frame rdbuf this1 nxt"
      by (simp add: read_frame_def)
    from read_handshake_request_Frame [OF f] hs
    have st: "Status this1 = 0" and len: "length (crbuf this1) + length rdbuf = length (crbuf this)"
      by simp_all
    from handle_frame_handshake_length [OF hf st] len eq show ?thesis by simp
  next
    case data
    with rf have f: "read_data_frame this n = Frame rdbuf this1 nxt"
      by (auto simp: read_frame_def)
    from read_data_frame_Frame [OF f] eq show ?thesis by simp
  next
    case other
    with rf have "this1 = this" by (simp add: read_frame_def)
    with other hf show ?thesis by (simp add: handle_frame_def)
  qed
qed

text \<open>
  \<open>doReadPacket\<close>: the loop runs its body until the body returns or aborts. Every pass that
  goes on has taken bytes out of \<open>crbuf\<close>, so the loop ends.
\<close>

function doReadPacket ::
  "crypto \<Rightarrow> env \<Rightarrow> TCPSecureConn \<Rightarrow> uint16 \<Rightarrow> abort + (TCPSecureConn \<times> uint16)"
where
  "doReadPacket cr e this nxtpktlen =
     (case doReadPacket_body cr e this nxtpktlen of
        Return this' nxt \<Rightarrow> Inr (this', nxt)
      | Abort a \<Rightarrow> Inl a
      | Continue this' nxt \<Rightarrow> doReadPacket cr e this' nxt)"
  by pat_completeness auto
termination
  by (relation "measure (\<lambda>(cr, e, this, n). length (crbuf this))")
     (auto dest: doReadPacket_body_consumes)


lemma doReadPacket_Return:
  "doReadPacket_body cr e this nxt = Return this' nxt' \<Longrightarrow>
     doReadPacket cr e this nxt = Inr (this', nxt')"
  by (subst doReadPacket.simps) simp

lemma doReadPacket_Abort:
  "doReadPacket_body cr e this nxt = Abort a \<Longrightarrow> doReadPacket cr e this nxt = Inl a"
  by (subst doReadPacket.simps) simp

lemma doReadPacket_Continue:
  "doReadPacket_body cr e this nxt = Continue this' nxt' \<Longrightarrow>
     doReadPacket cr e this nxt = doReadPacket cr e this' nxt'"
  by (subst doReadPacket.simps) simp

lemma handshake_request_size_unat:
  "112 + MAC_SIZE cr < 65536 \<Longrightarrow> unat (handshake_request_size cr) = 112 + MAC_SIZE cr"
  unfolding handshake_request_size_def
  using unat_of_nat [where 'a = 16, of "112 + MAC_SIZE cr"]
  by (simp del: of_nat_add)

lemma confirmed_dispatch_eq:
  "confirmed_dispatch b = (if b = 0 \<or> b = 6 \<or> b = 8 then Some (Fatalln ''wtf'') else None)"
  unfolding confirmed_dispatch_def
  by (simp add: word_unat_eq_iff word_le_nat_alt word_less_nat_alt)

lemma reserved_range_not_fatal:
  "10 \<le> (b::byte) \<Longrightarrow> b \<le> 15 \<Longrightarrow> b \<noteq> 0 \<and> b \<noteq> 6 \<and> b \<noteq> 8"
  by (auto simp: word_le_nat_alt)

section \<open>The read loop\<close>

text \<open>
  One round of \<open>runReadLoop\<close> up to the call of \<open>doReadPacket\<close>: \<open>rd\<close> is \<open>rdbuf[:rn]\<close> and
  \<open>err\<close> the error of \<open>c.Read\<close>. On \<open>io.EOF\<close> the status is reset, and any error or an empty
  read leaves the loop.
\<close>

datatype sock_read = Got TCPSecureConn | Break TCPSecureConn | Overflow abort

definition read_socket :: "TCPSecureConn \<Rightarrow> bytes \<Rightarrow> error option \<Rightarrow> sock_read" where
  "read_socket this rd err =
     (let this1 = (if err = Some EOF then this\<lparr>Status := TCP_STATUS_NO_STATUS\<rparr> else this) in
      if err \<noteq> None then Break this1
      else if length rd < 1 then Break this1
      else
        let this2 = (if OnNetRecv this1
                     then this1\<lparr>calls := calls this1 @ [CallOnNetRecv (length rd)]\<rparr>
                     else this1)
        in if \<not> length (crbuf this2) + length rd \<le> crbuf_cap this2
           then Overflow (AssertFailed ''ring buffer full'')
           else Got (this2\<lparr>crbuf := crbuf this2 @ rd\<rparr>))"

datatype read_loop = Reading TCPSecureConn uint16 | ReadDone TCPSecureConn | ReadCrashed abort

definition runReadLoop_body ::
  "crypto \<Rightarrow> env \<Rightarrow> bytes \<Rightarrow> error option \<Rightarrow> TCPSecureConn \<Rightarrow> uint16 \<Rightarrow> read_loop"
where
  "runReadLoop_body cr e rd err this nxtpktlen =
     (case read_socket this rd err of
        Break this1 \<Rightarrow>
          ReadDone (if OnClosed this1 then this1\<lparr>calls := calls this1 @ [CallOnClosed]\<rparr>
                    else this1)
      | Overflow a \<Rightarrow> ReadCrashed a
      | Got this1 \<Rightarrow>
          (case doReadPacket cr e this1 nxtpktlen of
             Inl a \<Rightarrow> ReadCrashed a
           | Inr (this2, nxt) \<Rightarrow> Reading this2 nxt))"

text \<open>
  \<open>runReadLoop\<close> over the results of its successive \<open>c.Read\<close> calls, each with what the
  environment decides during that round. When the list is used up the loop is waiting in
  \<open>c.Read\<close>.
\<close>

fun runReadLoop ::
  "crypto \<Rightarrow> (env \<times> bytes \<times> error option) list \<Rightarrow> TCPSecureConn \<Rightarrow> uint16 \<Rightarrow> read_loop"
where
  "runReadLoop cr [] this nxtpktlen = Reading this nxtpktlen"
| "runReadLoop cr ((e, rd, err) # rest) this nxtpktlen =
     (case runReadLoop_body cr e rd err this nxtpktlen of
        Reading this' nxt \<Rightarrow> runReadLoop cr rest this' nxt
      | ReadDone this' \<Rightarrow> ReadDone this'
      | ReadCrashed a \<Rightarrow> ReadCrashed a)"

section \<open>The write loop\<close>

text \<open>
  The socket's answers to the write loop: \<open>wr i\<close> is what the \<open>i\<close>-th \<open>Sock.Write\<close> of the
  connection returns. \<open>write_one\<close> is the part both loops of \<open>runWriteLoop\<close> share: the
  write of a dequeued item, the error check and the \<open>OnNetSent\<close> callback.
\<close>

definition write_one ::
  "crypto \<Rightarrow> (nat \<Rightarrow> nat \<times> error option) \<Rightarrow> TCPSecureConn \<Rightarrow> bytes
     \<Rightarrow> TCPSecureConn \<times> error option"
where
  "write_one cr wr this data =
     (let (this1, wn, err) = WritePacket cr this data (wr (length (sock_writes this))) in
      if err \<noteq> None then (this1, err)
      else ((if OnNetSent this1 then this1\<lparr>calls := calls this1 @ [CallOnNetSent wn]\<rparr>
             else this1), None))"

lemma write_one_cwctrlq: "write_one cr wr this data = (this', err) \<Longrightarrow> cwctrlq this' = cwctrlq this"
  by (auto simp: write_one_def WritePacket_def Let_def split: prod.splits if_splits)

function flushCtrl ::
  "crypto \<Rightarrow> (nat \<Rightarrow> nat \<times> error option) \<Rightarrow> TCPSecureConn \<Rightarrow> TCPSecureConn \<times> error option"
where
  "flushCtrl cr wr this =
     (case cwctrlq this of
        [] \<Rightarrow> (this, None)
      | data # q \<Rightarrow>
          (case write_one cr wr
                  (this\<lparr>cwctrlq := q, cwctrldlen := cwctrldlen this - of_nat (length data)\<rparr>)
                  data of
             (this1, err) \<Rightarrow> if err \<noteq> None then (this1, err) else flushCtrl cr wr this1))"
  by pat_completeness auto
termination
  by (relation "measure (\<lambda>(cr, wr, this). length (cwctrlq this))")
     (auto dest: write_one_cwctrlq [OF sym])

text \<open>
  One round of \<open>runWriteLoop\<close>: \<open>pick\<close> tells which case of the \<open>select\<close> fires (\<open>True\<close>
  for the control queue); a case whose queue is empty cannot fire, and the loop waits.
\<close>

datatype write_loop = Writing TCPSecureConn | WriteDone TCPSecureConn | WriteWaiting

definition runWriteLoop_body ::
  "crypto \<Rightarrow> (nat \<Rightarrow> nat \<times> error option) \<Rightarrow> bool \<Rightarrow> TCPSecureConn \<Rightarrow> write_loop"
where
  "runWriteLoop_body cr wr pick this =
     (if pick then
        (case cwctrlq this of
           [] \<Rightarrow> WriteWaiting
         | data # q \<Rightarrow>
             (case write_one cr wr
                     (this\<lparr>cwctrlq := q, cwctrldlen := cwctrldlen this - of_nat (length data)\<rparr>)
                     data of
                (this1, err) \<Rightarrow> if err \<noteq> None then WriteDone this1 else Writing this1))
      else
        (case cwdataq this of
           [] \<Rightarrow> WriteWaiting
         | data # q \<Rightarrow>
             (case write_one cr wr
                     (this\<lparr>cwdataq := q, cwdatadlen := cwdatadlen this - of_nat (length data)\<rparr>)
                     data of
                (this1, err) \<Rightarrow>
                  if err \<noteq> None then WriteDone this1
                  else (case flushCtrl cr wr this1 of
                          (this2, err2) \<Rightarrow>
                            if err2 \<noteq> None then WriteDone this2 else Writing this2))))"

section \<open>Executions of the two pipelines\<close>

text \<open>
  The steps the running pipelines of one connection take, in any interleaving: the read
  loop takes bytes from the socket, the decode loop makes one pass, the write loop makes
  one round, a producer enqueues a control packet. A step exists only when the loop it
  belongs to goes on: a round that leaves its loop or aborts is no step.
\<close>

inductive pipeline_step ::
  "crypto \<Rightarrow> TCPSecureConn \<times> uint16 \<Rightarrow> TCPSecureConn \<times> uint16 \<Rightarrow> bool"
  for cr :: crypto
where
  step_socket: "read_socket this rd err = Got this' \<Longrightarrow> pipeline_step cr (this, nxt) (this', nxt)"
| step_decode: "doReadPacket_body cr e this nxt = Continue this' nxt' \<Longrightarrow>
     pipeline_step cr (this, nxt) (this', nxt')"
| step_wait: "doReadPacket_body cr e this nxt = Return this' nxt' \<Longrightarrow>
     pipeline_step cr (this, nxt) (this', nxt')"
| step_write: "runWriteLoop_body cr wr pick this = Writing this' \<Longrightarrow>
     pipeline_step cr (this, nxt) (this', nxt)"
| step_enqueue: "SendCtrlPacket this data dtime = Inr (this', b, err) \<Longrightarrow>
     pipeline_step cr (this, nxt) (this', nxt)"

text \<open>The two arrows of the status diagram.\<close>

definition status_arrow :: "byte \<Rightarrow> byte \<Rightarrow> bool" where
  "status_arrow a b =
     ((a = TCP_STATUS_NO_STATUS \<and> b = TCP_STATUS_UNCONFIRMED) \<or>
      (a = TCP_STATUS_UNCONFIRMED \<and> b = TCP_STATUS_CONFIRMED))"

section \<open>A concrete instance of the parameters\<close>

text \<open>
  An instance of the callees, used to run the definitions on concrete inputs: the
  ciphertext is a 16-byte tag made of the first byte of the key and the first byte of the
  nonce, followed by the plaintext; decryption checks the tag; the shared secret is the
  public key followed by the secret key; the nonce is a big-endian counter.
\<close>

definition demo_tag :: "bytes \<Rightarrow> bytes \<Rightarrow> bytes" where
  "demo_tag k n = replicate 8 (case k of [] \<Rightarrow> 0 | b # _ \<Rightarrow> b) @
                  replicate 8 (case n of [] \<Rightarrow> 0 | b # _ \<Rightarrow> b)"

fun incr_le :: "bytes \<Rightarrow> bytes" where
  "incr_le [] = []"
| "incr_le (b # bs) = (if b = 255 then 0 # incr_le bs else (b + 1) # bs)"

definition demo_crypto :: crypto where
  "demo_crypto =
     \<lparr>MAC_SIZE = 16,
      EncryptDataSymmetric = (\<lambda>k n p. (demo_tag k n @ p, None)),
      DecryptDataSymmetric =
        (\<lambda>k n c. if 16 \<le> length c \<and> take 16 c = demo_tag k n then (drop 16 c, None)
                 else ([], Some (ExtError ''decrypt failed''))),
      CBBeforeNm = (\<lambda>pk sk. (pk @ sk, None)),
      Incr = (\<lambda>n. rev (incr_le (rev n)))\<rparr>"

definition demo_env :: env where
  "demo_env =
     \<lparr>rnd_SentNonce = replicate 24 7, rnd_srvTmpNonce = replicate 24 8,
      rnd_tmpPubkey = replicate 32 9, rnd_tmpSeckey = replicate 32 10, send_dtime = 1000\<rparr>"

text \<open>A connection after its handshake, with session key \<open>[1]\<close> and both nonces \<open>[2]\<close>.\<close>

definition demo_conn :: TCPSecureConn where
  "demo_conn = NewTCPSecureConn\<lparr>Shrkey := [1], RecvNonce := [2], SentNonce := [2],
                                Status := TCP_STATUS_CONFIRMED\<rparr>"

lemma demo_tag_length: "length (demo_tag k n) = 16"
  by (simp add: demo_tag_def)

lemma demo_Unpacket:
  "Unpacket demo_crypto demo_conn (PutUint16 n @ demo_tag [1] [2] @ p) =
     Inr (demo_conn\<lparr>RecvNonce := [3]\<rparr>, n, p, None)"
proof -
  have l2: "length (PutUint16 n) = 2" by (simp add: PutUint16_def)
  have rd: "Uint16 (PutUint16 n @ demo_tag [1] [2] @ p) = n" by (rule Uint16_PutUint16)
  show ?thesis
    by (simp add: Unpacket_def binary_Read_def l2 rd demo_crypto_def demo_conn_def
        demo_tag_length)
qed

section \<open>Frame round trip\<close>

text \<open>
  C1, as the claim states it, fails for a plaintext whose ciphertext is 65536 bytes or
  longer: \<open>uint16(len(encdat))\<close> keeps the low 16 bits of the length. A plaintext of 65520
  bytes under a 16-byte MAC gives a ciphertext of 65536 bytes behind the prefix \<open>00 00\<close>,
  which reads back as 0.
\<close>

theorem CreatePacket_length_prefix_wraps:
  "CreatePacket demo_crypto demo_conn (replicate 65520 0) =
     ([0, 0] @ demo_tag [1] [2] @ replicate 65520 0, None) \<and>
   length (demo_tag [1] [2] @ replicate 65520 (0::byte)) = 65536 \<and>
   length (replicate 65520 (0::byte)) + MAC_SIZE demo_crypto = 65536 \<and>
   unat (Uint16 ([0, 0] @ demo_tag [1] [2] @ replicate 65520 0)) = 0"
  by (simp add: CreatePacket_def demo_crypto_def demo_conn_def demo_tag_length PutUint16_def
      Uint16_def)

text \<open>
  C1, amended. For every plaintext of length \<open>L\<close> with \<open>L + MAC_SIZE\<close> below 65536, the frame
  made by \<open>CreatePacket\<close> starts with the two bytes of the big-endian \<open>uint16\<close> encoding of
  \<open>L + MAC_SIZE\<close>, the length of the ciphertext that follows them. For every plaintext,
  of any length, the frame is the big-endian encoding of the low 16 bits of that length
  followed by the ciphertext, and \<open>Unpacket\<close> on that frame, under the same key and with
  its receive nonce equal to the send nonce, returns exactly the plaintext without an
  error. The encryption is the callee's: it is assumed to succeed on this plaintext with a
  ciphertext \<open>MAC_SIZE\<close> bytes longer, which the decryption under the same key and nonce
  turns back into the plaintext.
\<close>

theorem CreatePacket_Unpacket_roundtrip:
  assumes enc: "EncryptDataSymmetric cr (Shrkey tx) (SentNonce tx) plain = (encdat, None)"
    and len: "length encdat = length plain + MAC_SIZE cr"
    and dec: "DecryptDataSymmetric cr (Shrkey tx) (SentNonce tx) encdat = (plain, None)"
    and key: "Shrkey rx = Shrkey tx"
    and nonce: "RecvNonce rx = SentNonce tx"
  shows "\<exists>frame. CreatePacket cr tx plain = (frame, None) \<and>
           take 2 frame = PutUint16 (of_nat (length plain + MAC_SIZE cr)) \<and>
           drop 2 frame = encdat \<and>
           Unpacket cr rx frame =
             Inr (rx\<lparr>RecvNonce := Incr cr (RecvNonce rx)\<rparr>,
                  of_nat (length plain + MAC_SIZE cr), plain, None) \<and>
           (length plain + MAC_SIZE cr < 65536 \<longrightarrow>
              unat (Uint16 frame) = length plain + MAC_SIZE cr)"
proof -
  define n :: uint16 where "n = of_nat (length plain + MAC_SIZE cr)"
  define frame where "frame = PutUint16 n @ encdat"
  have cp: "CreatePacket cr tx plain = (frame, None)"
    by (simp add: CreatePacket_def enc len frame_def n_def)
  have l2: "length (PutUint16 n) = 2" by (simp add: PutUint16_def)
  have rd: "Uint16 frame = n" unfolding frame_def by (rule Uint16_PutUint16)
  have tk: "take 2 frame = PutUint16 n" "drop 2 frame = encdat" "\<not> length frame < 2"
    by (simp_all add: frame_def l2)
  have up: "Unpacket cr rx frame =
      Inr (rx\<lparr>RecvNonce := Incr cr (RecvNonce rx)\<rparr>, n, plain, None)"
    by (simp add: Unpacket_def binary_Read_def tk rd key nonce dec)
  have small: "length plain + MAC_SIZE cr < 65536 \<longrightarrow>
      unat (Uint16 frame) = length plain + MAC_SIZE cr"
    unfolding rd n_def using unat_of_nat [where 'a = 16, of "length plain + MAC_SIZE cr"]
    by (simp del: of_nat_add)
  show ?thesis using cp up small tk unfolding n_def by blast
qed

theorem CreatePacket_Unpacket_roundtrip_witness:
  "CreatePacket demo_crypto demo_conn [4, 0, 0, 0, 0, 0, 0, 0, 42] =
     ([0, 25] @ demo_tag [1] [2] @ [4, 0, 0, 0, 0, 0, 0, 0, 42], None) \<and>
   Unpacket demo_crypto demo_conn ([0, 25] @ demo_tag [1] [2] @ [4, 0, 0, 0, 0, 0, 0, 0, 42]) =
     Inr (demo_conn\<lparr>RecvNonce := [3]\<rparr>, 25, [4, 0, 0, 0, 0, 0, 0, 0, 42], None)"
proof -
  let ?plain = "[4, 0, 0, 0, 0, 0, 0, 0, 42] :: bytes"
  let ?c = "demo_tag [1] [2] @ ?plain"
  have enc: "EncryptDataSymmetric demo_crypto (Shrkey demo_conn) (SentNonce demo_conn) ?plain
      = (?c, None)"
    by (simp add: demo_crypto_def demo_conn_def)
  have len: "length ?c = length ?plain + MAC_SIZE demo_crypto"
    by (simp add: demo_crypto_def demo_tag_def)
  have dec: "DecryptDataSymmetric demo_crypto (Shrkey demo_conn) (SentNonce demo_conn) ?c
      = (?plain, None)"
    by (simp add: demo_crypto_def demo_conn_def demo_tag_def)
  have inc: "Incr demo_crypto (RecvNonce demo_conn) = [3]"
    by (simp add: demo_crypto_def demo_conn_def)
  have put: "PutUint16 25 = [0, 25]" by (simp add: PutUint16_def)
  have nonce: "RecvNonce demo_conn = SentNonce demo_conn" by (simp add: demo_conn_def)
  from CreatePacket_Unpacket_roundtrip [OF enc len dec refl nonce]
  obtain frame where
    f: "CreatePacket demo_crypto demo_conn ?plain = (frame, None)"
      "take 2 frame = PutUint16 (of_nat (length ?plain + MAC_SIZE demo_crypto))"
      "drop 2 frame = ?c"
      "Unpacket demo_crypto demo_conn frame =
         Inr (demo_conn\<lparr>RecvNonce := Incr demo_crypto (RecvNonce demo_conn)\<rparr>,
              of_nat (length ?plain + MAC_SIZE demo_crypto), ?plain, None)"
    by blast
  have "frame = take 2 frame @ drop 2 frame" by simp
  then have fr: "frame = [0, 25] @ ?c" using f(2,3) put by (simp add: demo_crypto_def)
  show ?thesis using f(1,4) unfolding fr inc by (simp add: demo_crypto_def)
qed

section \<open>Nonce bookkeeping\<close>

lemma WritePacket_SentNonce:
  "WritePacket cr this data (wn, err) = (this', wn', err') \<Longrightarrow>
     SentNonce this' = (if err = None then Incr cr (SentNonce this) else SentNonce this) \<and>
     RecvNonce this' = RecvNonce this \<and> wn' = wn \<and> err' = err"
  by (auto simp: WritePacket_def Let_def split: prod.splits if_splits)

text \<open>
  C2. \<open>WritePacket\<close> increments the send nonce exactly when the socket write succeeds
  (\<open>WritePacket_SentNonce\<close>). \<open>Unpacket\<close> has no such test: on a frame of at least two bytes
  whose decryption fails it increments the receive nonce all the same, and returns the
  error.
\<close>

theorem Unpacket_increments_on_failed_decrypt:
  assumes "2 \<le> length encpkt"
    and "DecryptDataSymmetric cr (Shrkey this) (RecvNonce this) (drop 2 encpkt) = (plnpkt, Some e)"
  shows "Unpacket cr this encpkt =
           Inr (this\<lparr>RecvNonce := Incr cr (RecvNonce this)\<rparr>, Uint16 encpkt, plnpkt, Some e)"
  using assms by (simp add: Unpacket_def binary_Read_def)

theorem Unpacket_increments_on_failed_decrypt_witness:
  "Unpacket demo_crypto demo_conn ([0, 17] @ replicate 17 0) =
     Inr (demo_conn\<lparr>RecvNonce := [3]\<rparr>, 17, [], Some (ExtError ''decrypt failed'')) \<and>
   RecvNonce demo_conn = [2]"
proof -
  let ?f = "[0, 17] @ replicate 17 0 :: bytes"
  have l: "2 \<le> length ?f" by simp
  have d: "DecryptDataSymmetric demo_crypto (Shrkey demo_conn) (RecvNonce demo_conn) (drop 2 ?f)
      = ([], Some (ExtError ''decrypt failed''))"
    by (simp add: demo_crypto_def demo_conn_def demo_tag_def eval_nat_numeral)
  have i: "Incr demo_crypto (RecvNonce demo_conn) = [3]"
    by (simp add: demo_crypto_def demo_conn_def)
  have u: "Uint16 ?f = 17" by (simp add: Uint16_def)
  show ?thesis
    using Unpacket_increments_on_failed_decrypt [OF l d] unfolding i u
    by (simp add: demo_conn_def)
qed

section \<open>Control queue\<close>

text \<open>
  C3, as the claim states it, fails where the enqueue is measured to take more than five
  milliseconds: the payload is short and the queue is empty, yet the call does not return.
\<close>

theorem SendCtrlPacket_slow_enqueue_is_fatal:
  "SendCtrlPacket NewTCPSecureConn [5] 6000000 = Inl (Fatalln ''send use too long'')"
  by (simp add: SendCtrlPacket_def NewTCPSecureConn_def)

text \<open>
  C3, amended. \<open>SendCtrlPacket\<close> takes no blocking step (its only channel operation is a
  \<open>select\<close> with a \<open>default\<close>). On a connection whose control queue has the capacity 64 that
  \<open>NewTCPSecureConn\<close> gives it: a payload longer than 2048 bytes is refused with an error
  and nothing is enqueued; a payload of at most 2048 bytes is refused with the queue-full
  error and dropped when the queue holds 64 entries; otherwise it is put at the end of the
  queue, and the call returns success unless the measured duration of the enqueue exceeds
  5 ms, in which case \<open>log.Fatalln\<close> ends the process.
\<close>

theorem SendCtrlPacket_policy:
  assumes cap: "cwctrlq_cap this = 64"
  shows "cwctrlq_cap NewTCPSecureConn = 64 \<and>
    (2048 < length data \<longrightarrow>
       SendCtrlPacket this data dtime = Inr (this, [], Some (DataTooLong (length data) 2048))) \<and>
    (length data \<le> 2048 \<and> 64 \<le> length (cwctrlq this) \<longrightarrow>
       SendCtrlPacket this data dtime = Inr (this, [], Some CtrlQueueFull)) \<and>
    (length data \<le> 2048 \<and> length (cwctrlq this) < 64 \<and> dtime \<le> 5000000 \<longrightarrow>
       SendCtrlPacket this data dtime =
         Inr (this\<lparr>cwctrlq := cwctrlq this @ [data],
                   cwctrldlen := cwctrldlen this + of_nat (length data)\<rparr>, [], None)) \<and>
    (length data \<le> 2048 \<and> length (cwctrlq this) < 64 \<and> 5000000 < dtime \<longrightarrow>
       SendCtrlPacket this data dtime = Inl (Fatalln ''send use too long''))"
  using cap by (simp add: SendCtrlPacket_def NewTCPSecureConn_def Let_def)

theorem SendCtrlPacket_policy_witness:
  "SendCtrlPacket NewTCPSecureConn [5, 0, 0, 0, 0, 0, 0, 0, 42] 1000 =
     Inr (NewTCPSecureConn\<lparr>cwctrlq := [[5, 0, 0, 0, 0, 0, 0, 0, 42]], cwctrldlen := 9\<rparr>, [], None)
   \<and> SendCtrlPacket (NewTCPSecureConn\<lparr>cwctrlq := replicate 64 [5]\<rparr>) [5] 1000 =
     Inr (NewTCPSecureConn\<lparr>cwctrlq := replicate 64 [5]\<rparr>, [], Some CtrlQueueFull)
   \<and> SendCtrlPacket NewTCPSecureConn (replicate 2049 0) 1000 =
     Inr (NewTCPSecureConn, [], Some (DataTooLong 2049 2048))"
proof -
  have c: "cwctrlq_cap NewTCPSecureConn = 64" by (simp add: NewTCPSecureConn_def)
  have c': "cwctrlq_cap (NewTCPSecureConn\<lparr>cwctrlq := replicate 64 [5]\<rparr>) = 64"
    by (simp add: NewTCPSecureConn_def)
  have q: "cwctrlq NewTCPSecureConn = []" "cwctrldlen NewTCPSecureConn = 0"
    by (simp_all add: NewTCPSecureConn_def)
  show ?thesis
    using SendCtrlPacket_policy [OF c, of "[5, 0, 0, 0, 0, 0, 0, 0, 42]" 1000]
      SendCtrlPacket_policy [OF c', of "[5]" 1000]
      SendCtrlPacket_policy [OF c, of "replicate 2049 0" 1000]
    by (simp add: q)
qed

section \<open>Dispatch on a confirmed connection\<close>

text \<open>
  C8. On a confirmed connection, for a frame that \<open>Unpacket\<close> turns into a non-empty
  plaintext: a type byte in the reserved range 10 to 15 is accepted, the pass going on with
  the connection as \<open>Unpacket\<close> left it; the type bytes \<open>ROUTING_REQUEST\<close> (0), \<open>OOB_SEND\<close>
  (6) and \<open>ONION_REQUEST\<close> (8) match no case and reach \<open>log.Fatalln\<close>; they are the only
  ones that do.
\<close>

theorem confirmed_reserved_accepted_unmatched_fatal:
  assumes st: "Status this = TCP_STATUS_CONFIRMED"
    and un: "Unpacket cr this rdbuf = Inr (this1, datlen, plnpkt, err)"
    and ne: "plnpkt \<noteq> []"
  shows "(10 \<le> plnpkt ! 0 \<and> plnpkt ! 0 \<le> 15 \<longrightarrow>
            handle_frame cr e this rdbuf = Continue this1 0) \<and>
         (plnpkt ! 0 = TCP_PACKET_ROUTING_REQUEST \<or> plnpkt ! 0 = TCP_PACKET_OOB_SEND \<or>
          plnpkt ! 0 = TCP_PACKET_ONION_REQUEST \<longrightarrow>
            handle_frame cr e this rdbuf = Abort (Fatalln ''wtf'')) \<and>
         (plnpkt ! 0 \<noteq> TCP_PACKET_ROUTING_REQUEST \<and> plnpkt ! 0 \<noteq> TCP_PACKET_OOB_SEND \<and>
          plnpkt ! 0 \<noteq> TCP_PACKET_ONION_REQUEST \<longrightarrow>
            handle_frame cr e this rdbuf = Continue this1 0)"
proof -
  have hf: "handle_frame cr e this rdbuf =
      (case confirmed_dispatch (plnpkt ! 0) of Some a \<Rightarrow> Abort a | None \<Rightarrow> Continue this1 0)"
    using st un ne by (simp add: handle_frame_def handle_confirmed_packet_def)
  show ?thesis
    unfolding hf confirmed_dispatch_eq using reserved_range_not_fatal [of "plnpkt ! 0"]
    by auto
qed

theorem confirmed_reserved_accepted_unmatched_fatal_witness:
  "handle_frame demo_crypto demo_env demo_conn (PutUint16 17 @ demo_tag [1] [2] @ [12]) =
     Continue (demo_conn\<lparr>RecvNonce := [3]\<rparr>) 0 \<and>
   handle_frame demo_crypto demo_env demo_conn (PutUint16 17 @ demo_tag [1] [2] @ [6]) =
     Abort (Fatalln ''wtf'')"
proof -
  have st: "Status demo_conn = TCP_STATUS_CONFIRMED" by (simp add: demo_conn_def NewTCPSecureConn_def)
  show ?thesis
    using confirmed_reserved_accepted_unmatched_fatal
            [OF st demo_Unpacket [of 17 "[12]"], of demo_env]
          confirmed_reserved_accepted_unmatched_fatal
            [OF st demo_Unpacket [of 17 "[6]"], of demo_env]
    by simp
qed

section \<open>The handshake request is read without waiting\<close>

text \<open>
  C10. In \<open>TCP_STATUS_NO_STATUS\<close> the decode loop reads the whole handshake request,
  \<open>2 * (32 + 24) + MAC_SIZE\<close> bytes, without a look at how much is buffered (the size fits
  a \<open>uint16\<close>, or the constant would not compile). With fewer bytes buffered the assertion
  "not read enough data" fails; so a round of the read loop that delivers a first part of
  the request only ends in that abort. In the two data states a short buffer makes the
  loop return and wait instead.
\<close>

theorem partial_handshake_is_fatal:
  assumes st: "Status this = TCP_STATUS_NO_STATUS"
    and sz: "(PUBLIC_KEY_SIZE + NONCE_SIZE) * 2 + MAC_SIZE cr < 65536"
  shows "(length (crbuf this) < (PUBLIC_KEY_SIZE + NONCE_SIZE) * 2 + MAC_SIZE cr \<longrightarrow>
            doReadPacket cr e this nxtpktlen = Inl (AssertFailed ''not read enough data'')) \<and>
         (1 \<le> length rd \<and> length (crbuf this) + length rd \<le> crbuf_cap this \<and>
          length (crbuf this) + length rd < (PUBLIC_KEY_SIZE + NONCE_SIZE) * 2 + MAC_SIZE cr \<longrightarrow>
            runReadLoop_body cr e rd None this nxtpktlen =
              ReadCrashed (AssertFailed ''not read enough data'')) \<and>
         ((Status that = TCP_STATUS_UNCONFIRMED \<or> Status that = TCP_STATUS_CONFIRMED) \<and>
          length (crbuf that) < 2 \<longrightarrow>
            doReadPacket cr e that 0 = Inr (that, 0))"
proof -
  have u: "unat (handshake_request_size cr) = 112 + MAC_SIZE cr"
    using sz by (simp add: handshake_request_size_unat)
  have short: "doReadPacket cr e t n = Inl (AssertFailed ''not read enough data'')"
    if "Status t = 0" "length (crbuf t) < 112 + MAC_SIZE cr" for t n
  proof -
    have "doReadPacket_body cr e t n = Abort (AssertFailed ''not read enough data'')"
      using that by (simp add: doReadPacket_body_def read_frame_def read_handshake_request_eq u)
    then show ?thesis by (rule doReadPacket_Abort)
  qed
  have a: "length (crbuf this) < (PUBLIC_KEY_SIZE + NONCE_SIZE) * 2 + MAC_SIZE cr \<longrightarrow>
      doReadPacket cr e this nxtpktlen = Inl (AssertFailed ''not read enough data'')"
    using short [of this nxtpktlen] st by simp
  have b: "runReadLoop_body cr e rd None this nxtpktlen =
      ReadCrashed (AssertFailed ''not read enough data'')"
    if "1 \<le> length rd" "length (crbuf this) + length rd \<le> crbuf_cap this"
      "length (crbuf this) + length rd < (PUBLIC_KEY_SIZE + NONCE_SIZE) * 2 + MAC_SIZE cr"
  proof -
    define t where "t = (if OnNetRecv this
                         then this\<lparr>calls := calls this @ [CallOnNetRecv (length rd)]\<rparr>
                         else this)\<lparr>crbuf := crbuf this @ rd\<rparr>"
    have rs: "read_socket this rd None = Got t"
      using that by (cases rd) (simp_all add: read_socket_def t_def Let_def)
    have "Status t = 0" "length (crbuf t) < 112 + MAC_SIZE cr"
      using st that by (simp_all add: t_def)
    then have "doReadPacket cr e t nxtpktlen = Inl (AssertFailed ''not read enough data'')"
      by (rule short)
    then show ?thesis by (simp add: runReadLoop_body_def rs)
  qed
  have c: "doReadPacket cr e that 0 = Inr (that, 0)"
    if "Status that = TCP_STATUS_UNCONFIRMED \<or> Status that = TCP_STATUS_CONFIRMED"
      "length (crbuf that) < 2"
  proof -
    have "doReadPacket_body cr e that 0 = Return that 0"
      using that by (auto simp: doReadPacket_body_def read_frame_def read_data_frame_def)
    then show ?thesis by (rule doReadPacket_Return)
  qed
  show ?thesis using a b c by blast
qed

theorem partial_handshake_is_fatal_witness:
  "runReadLoop_body demo_crypto demo_env (replicate 10 0) None NewTCPSecureConn 0 =
     ReadCrashed (AssertFailed ''not read enough data'') \<and>
   doReadPacket demo_crypto demo_env (demo_conn\<lparr>crbuf := [0]\<rparr>) 0 =
     Inr (demo_conn\<lparr>crbuf := [0]\<rparr>, 0)"
proof -
  have st: "Status NewTCPSecureConn = TCP_STATUS_NO_STATUS" by (simp add: NewTCPSecureConn_def)
  have sz: "(PUBLIC_KEY_SIZE + NONCE_SIZE) * 2 + MAC_SIZE demo_crypto < 65536"
    by (simp add: demo_crypto_def)
  show ?thesis
    using partial_handshake_is_fatal [OF st sz, where rd = "replicate 10 0"
        and that = "demo_conn\<lparr>crbuf := [0]\<rparr>" and e = demo_env and nxtpktlen = 0]
    by (simp add: NewTCPSecureConn_def demo_conn_def demo_crypto_def)
qed

section \<open>A ping on a confirmed connection\<close>

text \<open>
  C6. On a confirmed connection the case of \<open>TCP_PACKET_PING\<close> is empty (the call of
  \<open>HandlePingRequest\<close> stands in a comment): a frame whose plaintext starts with the type
  byte 4 is accepted, and the pass goes on with the connection as \<open>Unpacket\<close> left it.
  Nothing is put on the control queue and nothing is written to the socket, so no PONG
  is sent.
\<close>

theorem confirmed_ping_gets_no_pong:
  assumes st: "Status this = TCP_STATUS_CONFIRMED"
    and un: "Unpacket cr this rdbuf = Inr (this1, datlen, plnpkt, err)"
    and ne: "plnpkt \<noteq> []"
    and ping: "plnpkt ! 0 = TCP_PACKET_PING"
  shows "handle_frame cr e this rdbuf = Continue this1 0 \<and>
         cwctrlq this1 = cwctrlq this \<and> cwdataq this1 = cwdataq this \<and>
         sock_writes this1 = sock_writes this"
proof -
  have "handle_frame cr e this rdbuf = Continue this1 0"
    using st un ne ping
    by (simp add: handle_frame_def handle_confirmed_packet_def confirmed_dispatch_eq)
  moreover have "cwctrlq this1 = cwctrlq this \<and> cwdataq this1 = cwdataq this \<and>
      sock_writes this1 = sock_writes this"
    using un by (auto simp: Unpacket_def Let_def split: if_splits prod.splits)
  ultimately show ?thesis by simp
qed

theorem confirmed_ping_gets_no_pong_witness:
  "handle_frame demo_crypto demo_env demo_conn
     (PutUint16 25 @ demo_tag [1] [2] @ [4, 0, 0, 0, 0, 0, 0, 0, 42]) =
     Continue (demo_conn\<lparr>RecvNonce := [3]\<rparr>) 0 \<and>
   cwctrlq (demo_conn\<lparr>RecvNonce := [3]\<rparr>) = [] \<and>
   sock_writes (demo_conn\<lparr>RecvNonce := [3]\<rparr>) = []"
proof -
  have st: "Status demo_conn = TCP_STATUS_CONFIRMED" by (simp add: demo_conn_def NewTCPSecureConn_def)
  show ?thesis
    using confirmed_ping_gets_no_pong
            [OF st demo_Unpacket [of 25 "[4, 0, 0, 0, 0, 0, 0, 0, 42]"], of demo_env]
    by (simp add: demo_conn_def NewTCPSecureConn_def)
qed

section \<open>Reassembly\<close>

lemma read_data_frame_eq:
  "read_data_frame this n =
     (if n = 0 \<and> length (crbuf this) < 2 then NeedMore this n
      else
        let buf = (if n = 0 then drop 2 (crbuf this) else crbuf this);
            nxt = (if n = 0 then Uint16 (take 2 (crbuf this)) else n)
        in if length buf < unat nxt then NeedMore (this\<lparr>crbuf := buf\<rparr>) nxt
           else if 65534 \<le> unat nxt then ReadAbort (GoPanic ''slice bounds out of range'')
           else Frame (PutUint16 nxt @ take (unat nxt) buf)
                  (this\<lparr>crbuf := drop (unat nxt) buf\<rparr>) nxt)"
  by (simp add: read_data_frame_def read_pktlen_def read_payload_eq binary_Read_def Let_def)

text \<open>
  C7. The decode loop waits while fewer than two bytes are buffered and no length is
  pending, reads the length, waits while the payload is incomplete, and takes a frame of
  exactly the pending length out of the buffer when the length is at most 65533
  (\<open>read_data_frame_eq\<close>). For the lengths 65534 and 65535 the size of the frame buffer,
  \<open>2+*nxtpktlen\<close>, is computed in \<open>uint16\<close> and wraps to 0 or 1, and \<open>rdbuf[2:]\<close> panics:
  with the whole payload buffered no frame is taken.
\<close>

theorem frame_length_overflow_panics:
  assumes st: "Status this = TCP_STATUS_UNCONFIRMED \<or> Status this = TCP_STATUS_CONFIRMED"
    and buf: "crbuf this = PutUint16 n @ payload"
    and big: "65534 \<le> unat n"
    and enough: "unat n \<le> length payload"
  shows "doReadPacket cr e this 0 = Inl (GoPanic ''slice bounds out of range'')"
proof -
  have l2: "length (PutUint16 n) = 2" by (simp add: PutUint16_def)
  have rd: "Uint16 (PutUint16 n) = n" using Uint16_PutUint16 [of n "[]"] by simp
  have "read_data_frame this 0 = ReadAbort (GoPanic ''slice bounds out of range'')"
    using big enough by (simp add: read_data_frame_eq buf l2 rd)
  then have "doReadPacket_body cr e this 0 = Abort (GoPanic ''slice bounds out of range'')"
    using st by (auto simp: doReadPacket_body_def read_frame_def)
  then show ?thesis by (rule doReadPacket_Abort)
qed

theorem frame_length_overflow_panics_witness:
  "doReadPacket demo_crypto demo_env (demo_conn\<lparr>crbuf := [255, 254] @ replicate 65534 0\<rparr>) 0 =
     Inl (GoPanic ''slice bounds out of range'')"
proof -
  have p: "PutUint16 65534 = [255, 254]" by (simp add: PutUint16_def)
  have st: "Status (demo_conn\<lparr>crbuf := [255, 254] @ replicate 65534 0\<rparr>) = TCP_STATUS_UNCONFIRMED
      \<or> Status (demo_conn\<lparr>crbuf := [255, 254] @ replicate 65534 0\<rparr>) = TCP_STATUS_CONFIRMED"
    by (simp add: demo_conn_def)
  have buf: "crbuf (demo_conn\<lparr>crbuf := [255, 254] @ replicate 65534 0\<rparr>) =
      PutUint16 65534 @ replicate 65534 0"
    by (simp add: p)
  show ?thesis
    by (rule frame_length_overflow_panics [OF st buf]) simp_all
qed

section \<open>The first packet after the handshake\<close>

lemma Unpacket_Inr:
  "Unpacket cr this encpkt = Inr (this1, datlen, plnpkt, err) \<Longrightarrow>
     this1 = this\<lparr>RecvNonce := Incr cr (RecvNonce this)\<rparr>"
  by (auto simp: Unpacket_def Let_def split: if_splits prod.splits)

lemma HandlePingRequest_eq:
  "HandlePingRequest this (ptype # pingid) dtime =
     (if length pingid \<le> 2047 \<and> length (cwctrlq this) < cwctrlq_cap this then
        if dtime \<le> 5000000
        then Inr (this\<lparr>cwctrlq := cwctrlq this @ [TCP_PACKET_PONG # pingid],
                       cwctrldlen := cwctrldlen this + of_nat (length (TCP_PACKET_PONG # pingid))\<rparr>)
        else Inl (Fatalln ''send use too long'')
      else Inr this)"
  by (simp add: HandlePingRequest_def SendCtrlPacket_def Let_def)

lemma handle_first_packet_eq:
  assumes un: "Unpacket cr this rdbuf = Inr (this1, datlen, ptype # pingid, err)"
  shows "handle_first_packet cr e this rdbuf =
     (if length pingid \<le> 2047 \<and> length (cwctrlq this) < cwctrlq_cap this then
        if send_dtime e \<le> 5000000
        then Continue (this\<lparr>RecvNonce := Incr cr (RecvNonce this),
                 cwctrlq := cwctrlq this @ [TCP_PACKET_PONG # pingid],
                 cwctrldlen := cwctrldlen this + of_nat (length (TCP_PACKET_PONG # pingid)),
                 Status := TCP_STATUS_CONFIRMED,
                 calls := (if OnConfirmed this then calls this @ [CallOnConfirmed]
                           else calls this)\<rparr>) 0
        else Abort (Fatalln ''send use too long'')
      else Continue (this\<lparr>RecvNonce := Incr cr (RecvNonce this),
               Status := TCP_STATUS_CONFIRMED,
               calls := (if OnConfirmed this then calls this @ [CallOnConfirmed]
                         else calls this)\<rparr>) 0)"
proof -
  have t1: "this1 = this\<lparr>RecvNonce := Incr cr (RecvNonce this)\<rparr>"
    using un by (rule Unpacket_Inr)
  have q: "cwctrlq this1 = cwctrlq this" "cwctrlq_cap this1 = cwctrlq_cap this"
    by (simp_all add: t1)
  show ?thesis
    unfolding handle_first_packet_def un
    by (simp add: HandlePingRequest_eq q Let_def) (simp add: t1)
qed

lemma demo_first_frame:
  "Unpacket demo_crypto (demo_conn\<lparr>Status := s, cwctrlq := q, crbuf := b, OnConfirmed := oc\<rparr>)
     (PutUint16 n @ demo_tag [1] [2] @ p) =
   Inr (demo_conn\<lparr>Status := s, cwctrlq := q, crbuf := b, OnConfirmed := oc, RecvNonce := [3]\<rparr>,
        n, p, None)"
proof -
  have l2: "length (PutUint16 n) = 2" by (simp add: PutUint16_def)
  have rd: "Uint16 (PutUint16 n @ demo_tag [1] [2] @ p) = n" by (rule Uint16_PutUint16)
  show ?thesis
    by (simp add: Unpacket_def binary_Read_def l2 rd demo_crypto_def demo_conn_def
        demo_tag_length)
qed

text \<open>
  C5, as the claim states it, fails: with the control queue full the PONG is dropped
  (the status still becomes \<open>TCP_STATUS_CONFIRMED\<close>); with the enqueue measured above 5 ms
  \<open>log.Fatalln\<close> ends the process before the status changes; and a frame whose plaintext
  is empty makes \<open>plnpkt[0]\<close> panic.
\<close>

theorem first_packet_without_pong:
  "handle_frame demo_crypto demo_env
     (demo_conn\<lparr>Status := TCP_STATUS_UNCONFIRMED, cwctrlq := replicate 64 [5], crbuf := [],
        OnConfirmed := False\<rparr>)
     (PutUint16 25 @ demo_tag [1] [2] @ [4, 0, 0, 0, 0, 0, 0, 0, 42]) =
   Continue (demo_conn\<lparr>Status := TCP_STATUS_CONFIRMED, cwctrlq := replicate 64 [5], crbuf := [],
        OnConfirmed := False, RecvNonce := [3]\<rparr>) 0 \<and>
   handle_frame demo_crypto (demo_env\<lparr>send_dtime := 6000000\<rparr>)
     (demo_conn\<lparr>Status := TCP_STATUS_UNCONFIRMED, cwctrlq := [], crbuf := [],
        OnConfirmed := False\<rparr>)
     (PutUint16 25 @ demo_tag [1] [2] @ [4, 0, 0, 0, 0, 0, 0, 0, 42]) =
   Abort (Fatalln ''send use too long'') \<and>
   handle_frame demo_crypto demo_env
     (demo_conn\<lparr>Status := TCP_STATUS_UNCONFIRMED, cwctrlq := [], crbuf := [],
        OnConfirmed := False\<rparr>)
     (PutUint16 16 @ demo_tag [1] [2] @ []) =
   Abort (GoPanic ''index out of range'')"
proof -
  let ?ping = "[4, 0, 0, 0, 0, 0, 0, 0, 42] :: bytes"
  have full: "handle_first_packet demo_crypto demo_env
      (demo_conn\<lparr>Status := TCP_STATUS_UNCONFIRMED, cwctrlq := replicate 64 [5], crbuf := [],
         OnConfirmed := False\<rparr>)
      (PutUint16 25 @ demo_tag [1] [2] @ ?ping) =
    Continue (demo_conn\<lparr>Status := TCP_STATUS_CONFIRMED, cwctrlq := replicate 64 [5],
         crbuf := [], OnConfirmed := False, RecvNonce := [3]\<rparr>) 0"
    by (subst handle_first_packet_eq [OF demo_first_frame])
       (simp add: demo_conn_def NewTCPSecureConn_def demo_crypto_def)
  have slow: "handle_first_packet demo_crypto (demo_env\<lparr>send_dtime := 6000000\<rparr>)
      (demo_conn\<lparr>Status := TCP_STATUS_UNCONFIRMED, cwctrlq := [], crbuf := [],
         OnConfirmed := False\<rparr>)
      (PutUint16 25 @ demo_tag [1] [2] @ ?ping) = Abort (Fatalln ''send use too long'')"
    by (subst handle_first_packet_eq [OF demo_first_frame])
       (simp add: demo_conn_def NewTCPSecureConn_def)
  have empty: "handle_first_packet demo_crypto demo_env
      (demo_conn\<lparr>Status := TCP_STATUS_UNCONFIRMED, cwctrlq := [], crbuf := [],
         OnConfirmed := False\<rparr>)
      (PutUint16 16 @ demo_tag [1] [2] @ []) = Abort (GoPanic ''index out of range'')"
    unfolding handle_first_packet_def demo_first_frame by simp
  show ?thesis using full slow empty by (simp add: handle_frame_def)
qed

text \<open>
  C5, amended. On an unconfirmed connection, for a frame that \<open>Unpacket\<close> turns into a
  type byte followed by a ping id (the eight bytes of a ping, or any other length),
  whatever the type byte is. When the control queue has room and the PONG is at most 2048
  bytes long: if the enqueue is measured at no more than 5 ms, a PONG with the same ping
  id is put at the end of the control queue, the status becomes \<open>TCP_STATUS_CONFIRMED\<close>
  and \<open>OnConfirmed\<close> is called when it is set; if it is measured above 5 ms,
  \<open>log.Fatalln\<close> ends the process. When the queue is full or the PONG too long, the PONG
  is dropped, and the status still becomes \<open>TCP_STATUS_CONFIRMED\<close> and \<open>OnConfirmed\<close> is
  still called.
\<close>

theorem first_packet_confirms:
  assumes st: "Status this = TCP_STATUS_UNCONFIRMED"
    and un: "Unpacket cr this rdbuf = Inr (this1, datlen, ptype # pingid, err)"
  shows "(length pingid \<le> 2047 \<and> length (cwctrlq this) < cwctrlq_cap this \<and>
          send_dtime e \<le> 5000000 \<longrightarrow>
            handle_frame cr e this rdbuf =
              Continue (this\<lparr>RecvNonce := Incr cr (RecvNonce this),
                 cwctrlq := cwctrlq this @ [TCP_PACKET_PONG # pingid],
                 cwctrldlen := cwctrldlen this + of_nat (length (TCP_PACKET_PONG # pingid)),
                 Status := TCP_STATUS_CONFIRMED,
                 calls := (if OnConfirmed this then calls this @ [CallOnConfirmed]
                           else calls this)\<rparr>) 0) \<and>
         (length pingid \<le> 2047 \<and> length (cwctrlq this) < cwctrlq_cap this \<and>
          5000000 < send_dtime e \<longrightarrow>
            handle_frame cr e this rdbuf = Abort (Fatalln ''send use too long'')) \<and>
         (2047 < length pingid \<or> cwctrlq_cap this \<le> length (cwctrlq this) \<longrightarrow>
            handle_frame cr e this rdbuf =
              Continue (this\<lparr>RecvNonce := Incr cr (RecvNonce this),
                 Status := TCP_STATUS_CONFIRMED,
                 calls := (if OnConfirmed this then calls this @ [CallOnConfirmed]
                           else calls this)\<rparr>) 0)"
proof -
  have "handle_frame cr e this rdbuf = handle_first_packet cr e this rdbuf"
    using st by (simp add: handle_frame_def)
  then show ?thesis
    unfolding handle_first_packet_eq [OF un] by auto
qed

theorem first_packet_confirms_witness:
  "handle_frame demo_crypto demo_env
     (demo_conn\<lparr>Status := TCP_STATUS_UNCONFIRMED, cwctrlq := [], crbuf := [],
        OnConfirmed := True\<rparr>)
     (PutUint16 25 @ demo_tag [1] [2] @ [4, 0, 0, 0, 0, 0, 0, 0, 42]) =
   Continue (demo_conn\<lparr>crbuf := [], RecvNonce := [3],
               cwctrlq := [[5, 0, 0, 0, 0, 0, 0, 0, 42]],
               cwctrldlen := 9, Status := TCP_STATUS_CONFIRMED,
               OnConfirmed := True, calls := [CallOnConfirmed]\<rparr>) 0"
proof -
  let ?c = "demo_conn\<lparr>Status := TCP_STATUS_UNCONFIRMED, cwctrlq := [], crbuf := [],
              OnConfirmed := True\<rparr>"
  have st: "Status ?c = TCP_STATUS_UNCONFIRMED" by simp
  have un: "Unpacket demo_crypto ?c (PutUint16 25 @ demo_tag [1] [2] @ 4 # [0, 0, 0, 0, 0, 0, 0, 42])
      = Inr (demo_conn\<lparr>Status := TCP_STATUS_UNCONFIRMED, cwctrlq := [], crbuf := [],
               OnConfirmed := True, RecvNonce := [3]\<rparr>, 25, 4 # [0, 0, 0, 0, 0, 0, 0, 42], None)"
    by (rule demo_first_frame)
  show ?thesis
    using first_packet_confirms [OF st un, of demo_env]
    by (simp add: demo_conn_def NewTCPSecureConn_def demo_env_def demo_crypto_def)
qed

section \<open>The handshake\<close>

text \<open>
  C9. With a whole handshake request at the head of the buffer (the client's public key,
  its nonce, and a blob of \<open>32 + 24 + MAC_SIZE\<close> bytes), a pass of the decode loop in
  \<open>TCP_STATUS_NO_STATUS\<close>: derives \<open>shrkey0\<close> from the client's public key and the relay's
  secret key; decrypts the blob under \<open>shrkey0\<close> and the client's nonce into the client's
  temporary public key and the seed that becomes the receive nonce; sets the session key
  to the shared secret of that temporary public key and the relay's fresh temporary secret
  key; writes to the socket the fresh plain nonce followed by the encryption, under
  \<open>shrkey0\<close> and that nonce, of the relay's temporary public key and the fresh send nonce;
  and leaves the status at \<open>TCP_STATUS_UNCONFIRMED\<close>. No error of a callee is looked at;
  the decrypted blob is assumed to have its 56 bytes.
\<close>

theorem handshake_pass:
  assumes st: "Status this = TCP_STATUS_NO_STATUS"
    and sz: "(PUBLIC_KEY_SIZE + NONCE_SIZE) * 2 + MAC_SIZE cr < 65536"
    and req: "crbuf this = cliPubkey @ cliNonce @ blob @ rest"
    and l1: "length cliPubkey = PUBLIC_KEY_SIZE"
    and l2: "length cliNonce = NONCE_SIZE"
    and l3: "length blob = PUBLIC_KEY_SIZE + NONCE_SIZE + MAC_SIZE cr"
    and k0: "CBBeforeNm cr cliPubkey (Seckey this) = (shrkey0, err1)"
    and dec: "DecryptDataSymmetric cr shrkey0 cliNonce blob = (tmppk @ seed, err2)"
    and l4: "length tmppk = PUBLIC_KEY_SIZE"
    and l5: "length seed = NONCE_SIZE"
    and enc: "EncryptDataSymmetric cr shrkey0 (rnd_srvTmpNonce e)
                (rnd_tmpPubkey e @ rnd_SentNonce e) = (encpkt, err3)"
  shows "doReadPacket_body cr e this nxtpktlen =
           Continue (this\<lparr>crbuf := rest,
                         Pubkey := cliPubkey,
                         RecvNonce := seed,
                         SentNonce := rnd_SentNonce e,
                         Shrkey := fst (CBBeforeNm cr tmppk (rnd_tmpSeckey e)),
                         sock_writes := sock_writes this @ [rnd_srvTmpNonce e @ encpkt],
                         Status := TCP_STATUS_UNCONFIRMED\<rparr>) 0"
proof -
  define rdbuf where "rdbuf = cliPubkey @ cliNonce @ blob"
  define this1 where "this1 = this\<lparr>crbuf := rest\<rparr>"
  have u: "unat (handshake_request_size cr) = 112 + MAC_SIZE cr"
    using sz by (simp add: handshake_request_size_unat)
  have lr: "length rdbuf = 112 + MAC_SIZE cr"
    using l1 l2 l3 by (simp add: rdbuf_def)
  have b: "crbuf this = rdbuf @ rest" by (simp add: req rdbuf_def)
  have rf: "read_frame cr this nxtpktlen = Frame rdbuf this1 (handshake_request_size cr)"
    using st by (simp add: read_frame_def read_handshake_request_eq u b lr this1_def)
  have parts: "take 32 rdbuf = cliPubkey" "take 24 (drop 32 rdbuf) = cliNonce"
    "drop 56 rdbuf = blob"
    using l1 l2 by (simp_all add: rdbuf_def)
  have pl: "take 32 (tmppk @ seed) = tmppk" "take 24 (drop 32 (tmppk @ seed)) = seed"
    "\<not> length (tmppk @ seed) < 56"
    using l4 l5 by simp_all
  have hh: "HandleHandshake cr e this1 rdbuf =
      Inr (this1\<lparr>Pubkey := cliPubkey, RecvNonce := seed, SentNonce := rnd_SentNonce e,
                  Shrkey := fst (CBBeforeNm cr tmppk (rnd_tmpSeckey e)),
                  sock_writes := sock_writes this1 @ [rnd_srvTmpNonce e @ encpkt]\<rparr>)"
    unfolding HandleHandshake_def
    using k0 dec enc l4 l5
    by (simp add: lr parts pl this1_def Let_def del: take_append drop_append)
  have st1: "Status this1 = TCP_STATUS_NO_STATUS" using st by (simp add: this1_def)
  show ?thesis
    unfolding doReadPacket_body_def rf
    using st1 by (simp add: handle_frame_def hh) (simp add: this1_def)
qed

lemma demo_tag_Cons: "demo_tag (a # k) (b # n) = replicate 8 a @ replicate 8 b"
  by (simp add: demo_tag_def)


theorem handshake_pass_witness:
  "doReadPacket_body demo_crypto demo_env
     (NewTCPSecureConn\<lparr>Seckey := [11],
        crbuf := (1 # replicate 31 1) @ (2 # replicate 23 2) @
                 (demo_tag [1] [2] @ replicate 32 3 @ replicate 24 4) @ []\<rparr>) 0 =
   Continue (NewTCPSecureConn\<lparr>Seckey := [11], crbuf := [],
        Pubkey := 1 # replicate 31 1,
        RecvNonce := replicate 24 4,
        SentNonce := replicate 24 7,
        Shrkey := replicate 32 3 @ replicate 32 10,
        sock_writes := [replicate 24 8 @ demo_tag [1] [8] @ replicate 32 9 @ replicate 24 7],
        Status := TCP_STATUS_UNCONFIRMED\<rparr>) 0"
proof -
  let ?pk = "1 # replicate 31 1 :: bytes"
  let ?cn = "2 # replicate 23 2 :: bytes"
  let ?blob = "demo_tag [1] [2] @ replicate 32 3 @ replicate 24 4"
  let ?c0 = "NewTCPSecureConn\<lparr>Seckey := [11], crbuf := ?pk @ ?cn @ ?blob @ []\<rparr>"
  have st: "Status ?c0 = TCP_STATUS_NO_STATUS" by (simp add: NewTCPSecureConn_def)
  have sz: "(PUBLIC_KEY_SIZE + NONCE_SIZE) * 2 + MAC_SIZE demo_crypto < 65536"
    by (simp add: demo_crypto_def)
  have req: "crbuf ?c0 = ?pk @ ?cn @ ?blob @ []" by simp
  have l1: "length ?pk = PUBLIC_KEY_SIZE" by simp
  have l2: "length ?cn = NONCE_SIZE" by simp
  have l3: "length ?blob = PUBLIC_KEY_SIZE + NONCE_SIZE + MAC_SIZE demo_crypto"
    by (simp add: demo_crypto_def demo_tag_length)
  have k0: "CBBeforeNm demo_crypto ?pk (Seckey ?c0) = (?pk @ [11], None)"
    by (simp add: demo_crypto_def)
  have dec: "DecryptDataSymmetric demo_crypto (?pk @ [11]) ?cn ?blob =
      (replicate 32 3 @ replicate 24 4, None)"
    by (simp add: demo_crypto_def demo_tag_Cons)
  have l4: "length (replicate 32 (3::byte)) = PUBLIC_KEY_SIZE" by simp
  have l5: "length (replicate 24 (4::byte)) = NONCE_SIZE" by simp
  have enc: "EncryptDataSymmetric demo_crypto (?pk @ [11]) (rnd_srvTmpNonce demo_env)
      (rnd_tmpPubkey demo_env @ rnd_SentNonce demo_env) =
      (demo_tag [1] [8] @ replicate 32 9 @ replicate 24 7, None)"
  proof -
    have "replicate 24 (8::byte) = 8 # replicate 23 8" by (simp add: eval_nat_numeral)
    then show ?thesis by (simp add: demo_crypto_def demo_env_def demo_tag_Cons)
  qed
  have sh: "fst (CBBeforeNm demo_crypto (replicate 32 3) (rnd_tmpSeckey demo_env)) =
      replicate 32 3 @ replicate 32 10"
    by (simp add: demo_crypto_def demo_env_def)
  have r: "rnd_SentNonce demo_env = replicate 24 7" "rnd_srvTmpNonce demo_env = replicate 24 8"
    by (simp_all add: demo_env_def)
  have w: "sock_writes NewTCPSecureConn = []" by (simp add: NewTCPSecureConn_def)
  show ?thesis
    using handshake_pass [OF st sz req l1 l2 l3 k0 dec l4 l5 enc, of 0]
    unfolding sh r by (simp add: w)
qed

section \<open>The status moves forward only\<close>

lemma read_socket_Got_Status:
  "read_socket this rd err = Got this' \<Longrightarrow> Status this' = Status this"
  by (auto simp: read_socket_def Let_def split: if_splits)

lemma SendCtrlPacket_Status:
  "SendCtrlPacket this d t = Inr (this', b, e) \<Longrightarrow> Status this' = Status this"
  by (auto simp: SendCtrlPacket_def Let_def split: if_splits)

lemma WritePacket_Status:
  "WritePacket cr this d w = (this', wn, err) \<Longrightarrow> Status this' = Status this"
  by (auto simp: WritePacket_def Let_def split: prod.splits if_splits)

lemma write_one_Status:
  "write_one cr wr this data = (this', err) \<Longrightarrow> Status this' = Status this"
  by (auto simp: write_one_def Let_def split: prod.splits if_splits dest!: WritePacket_Status)

lemma flushCtrl_Status:
  "flushCtrl cr wr this = (this', err) \<Longrightarrow> Status this' = Status this"
proof (induction cr wr this arbitrary: this' err rule: flushCtrl.induct)
  case (1 cr wr this)
  show ?case
  proof (cases "cwctrlq this")
    case Nil
    with "1.prems" show ?thesis by (subst (asm) flushCtrl.simps) simp
  next
    case (Cons data q)
    define t where "t = this\<lparr>cwctrlq := q, cwctrldlen := cwctrldlen this - of_nat (length data)\<rparr>"
    obtain t1 e1 where w: "write_one cr wr t data = (t1, e1)" by (cases "write_one cr wr t data")
    have s1: "Status t1 = Status this" using write_one_Status [OF w] by (simp add: t_def)
    show ?thesis
    proof (cases "e1 = None")
      case True
      have "flushCtrl cr wr this = flushCtrl cr wr t1"
        using Cons w True by (subst flushCtrl.simps) (simp add: t_def)
      with "1.prems" have "flushCtrl cr wr t1 = (this', err)" by simp
      from "1.IH" [OF Cons w [unfolded t_def, symmetric] _ this] True s1
      show ?thesis by simp
    next
      case False
      have "flushCtrl cr wr this = (t1, e1)"
        using Cons w False by (subst flushCtrl.simps) (simp add: t_def)
      with "1.prems" s1 show ?thesis by simp
    qed
  qed
qed

lemma runWriteLoop_body_Status:
  assumes "runWriteLoop_body cr wr pick this = Writing this'"
  shows "Status this' = Status this"
proof (cases pick)
  case True
  show ?thesis
  proof (cases "cwctrlq this")
    case Nil
    with True assms show ?thesis by (simp add: runWriteLoop_body_def)
  next
    case (Cons data q)
    define t where "t = this\<lparr>cwctrlq := q, cwctrldlen := cwctrldlen this - of_nat (length data)\<rparr>"
    obtain t1 e1 where w: "write_one cr wr t data = (t1, e1)" by (cases "write_one cr wr t data")
    have s1: "Status t1 = Status this" using write_one_Status [OF w] by (simp add: t_def)
    from assms True Cons w have "t1 = this'"
      by (simp add: runWriteLoop_body_def t_def [symmetric] split: if_splits)
    with s1 show ?thesis by simp
  qed
next
  case False
  show ?thesis
  proof (cases "cwdataq this")
    case Nil
    with False assms show ?thesis by (simp add: runWriteLoop_body_def)
  next
    case (Cons data q)
    define t where "t = this\<lparr>cwdataq := q, cwdatadlen := cwdatadlen this - of_nat (length data)\<rparr>"
    obtain t1 e1 where w: "write_one cr wr t data = (t1, e1)" by (cases "write_one cr wr t data")
    obtain t2 e2 where f: "flushCtrl cr wr t1 = (t2, e2)" by (cases "flushCtrl cr wr t1")
    have s1: "Status t1 = Status this" using write_one_Status [OF w] by (simp add: t_def)
    have s2: "Status t2 = Status t1" using f by (rule flushCtrl_Status)
    from assms False Cons w f have "t2 = this'"
      by (simp add: runWriteLoop_body_def t_def [symmetric] split: if_splits)
    with s1 s2 show ?thesis by simp
  qed
qed

lemma read_frame_Status:
  "read_frame cr this n = Frame rdbuf this1 nxt \<Longrightarrow> Status this1 = Status this"
  "read_frame cr this n = NeedMore this1 nxt \<Longrightarrow> Status this1 = Status this"
  by (auto simp: read_frame_def read_handshake_request_eq read_data_frame_eq Let_def
      split: if_splits)

lemma handle_frame_Continue_Status:
  assumes "handle_frame cr e this rdbuf = Continue this' n"
  shows "status_arrow (Status this) (Status this') \<or>
         (Status this = TCP_STATUS_CONFIRMED \<and> Status this' = TCP_STATUS_CONFIRMED)"
proof -
  consider (a) "Status this = 0" | (b) "Status this = 2" | (c) "Status this = 3"
    | (d) "Status this \<noteq> 0" "Status this \<noteq> 2" "Status this \<noteq> 3" by blast
  then show ?thesis
  proof cases
    case a
    with assms show ?thesis
      by (auto simp: handle_frame_def status_arrow_def split: sum.splits)
  next
    case b
    with assms show ?thesis
      by (auto simp: handle_frame_def handle_first_packet_def status_arrow_def Let_def
          split: sum.splits prod.splits if_splits)
  next
    case c
    with assms show ?thesis
      by (auto simp: handle_frame_def handle_confirmed_packet_def
          split: sum.splits prod.splits if_splits option.splits dest!: Unpacket_Inr)
  next
    case d
    with assms show ?thesis by (simp add: handle_frame_def)
  qed
qed

lemma handle_frame_never_returns: "handle_frame cr e this rdbuf \<noteq> Return t n"
  by (auto simp: handle_frame_def handle_first_packet_def handle_confirmed_packet_def Let_def
      split: sum.splits prod.splits if_splits option.splits)

lemma doReadPacket_body_Continue_Status:
  assumes "doReadPacket_body cr e this n = Continue this' n'"
  shows "status_arrow (Status this) (Status this') \<or>
         (Status this = TCP_STATUS_CONFIRMED \<and> Status this' = TCP_STATUS_CONFIRMED)"
proof -
  from assms obtain rdbuf this1 nxt where
    rf: "read_frame cr this n = Frame rdbuf this1 nxt" and
    hf: "handle_frame cr e this1 rdbuf = Continue this' n'"
    by (auto simp: doReadPacket_body_def split: frame_read.splits)
  from handle_frame_Continue_Status [OF hf] read_frame_Status(1) [OF rf]
  show ?thesis by simp
qed

lemma doReadPacket_body_Return_Status:
  assumes "doReadPacket_body cr e this n = Return this' n'"
  shows "Status this' = Status this"
  using assms
  by (auto simp: doReadPacket_body_def handle_frame_never_returns
      split: frame_read.splits dest: read_frame_Status(2))

lemma pipeline_step_Status:
  assumes "pipeline_step cr c c'"
  shows "Status (fst c') = Status (fst c) \<or> status_arrow (Status (fst c)) (Status (fst c'))"
  using assms
proof cases
  case (step_socket this rd err this' nxt)
  then show ?thesis by (auto dest: read_socket_Got_Status)
next
  case (step_decode e this nxt this' nxt')
  then show ?thesis by (auto dest: doReadPacket_body_Continue_Status)
next
  case (step_wait e this nxt this' nxt')
  then show ?thesis by (auto dest: doReadPacket_body_Return_Status)
next
  case (step_write wr pick this this' nxt)
  then show ?thesis by (auto dest: runWriteLoop_body_Status)
next
  case (step_enqueue this data dtime this' b err nxt)
  then show ?thesis by (auto dest: SendCtrlPacket_Status)
qed

lemma pipeline_steps_Status:
  assumes "rtranclp (pipeline_step cr) c c'"
  shows "rtranclp status_arrow (Status (fst c)) (Status (fst c'))"
  using assms
proof (induction rule: rtranclp_induct)
  case base
  show ?case by simp
next
  case (step y z)
  from pipeline_step_Status [OF step.hyps(2)] step.IH show ?case by auto
qed

lemma status_arrows_from:
  assumes "rtranclp status_arrow a b"
  shows "(a = TCP_STATUS_CONFIRMED \<longrightarrow> b = TCP_STATUS_CONFIRMED) \<and>
         (a = TCP_STATUS_UNCONFIRMED \<longrightarrow> b = TCP_STATUS_UNCONFIRMED \<or> b = TCP_STATUS_CONFIRMED) \<and>
         (a = TCP_STATUS_NO_STATUS \<longrightarrow>
            b = TCP_STATUS_NO_STATUS \<or> b = TCP_STATUS_UNCONFIRMED \<or> b = TCP_STATUS_CONFIRMED)"
  using assms by (induction rule: rtranclp_induct) (auto simp: status_arrow_def)

lemma doReadPacket_steps:
  "doReadPacket cr e this nxt = Inr (this', nxt') \<Longrightarrow>
     rtranclp (pipeline_step cr) (this, nxt) (this', nxt')"
proof (induction cr e this nxt rule: doReadPacket.induct)
  case (1 cr e this nxt)
  show ?case
  proof (cases "doReadPacket_body cr e this nxt")
    case (Continue t n)
    then have "doReadPacket cr e t n = Inr (this', nxt')"
      using "1.prems" doReadPacket_Continue [OF Continue] by simp
    from "1.IH" [OF Continue this] pipeline_step.step_decode [OF Continue]
    show ?thesis by (rule converse_rtranclp_into_rtranclp [rotated])
  next
    case (Return t n)
    with "1.prems" doReadPacket_Return [OF Return] have "t = this'" "n = nxt'" by simp_all
    with pipeline_step.step_wait [OF Return] show ?thesis by blast
  next
    case (Abort a)
    with "1.prems" doReadPacket_Abort [OF Abort] show ?thesis by simp
  qed
qed

lemma runReadLoop_steps:
  "runReadLoop cr evs this nxt = Reading this' nxt' \<Longrightarrow>
     rtranclp (pipeline_step cr) (this, nxt) (this', nxt')"
proof (induction evs arbitrary: this nxt)
  case Nil
  then show ?case by simp
next
  case (Cons ev evs)
  obtain e rd err where ev: "ev = (e, rd, err)" by (cases ev)
  from Cons.prems obtain t n where
    body: "runReadLoop_body cr e rd err this nxt = Reading t n" and
    rest: "runReadLoop cr evs t n = Reading this' nxt'"
    by (auto simp: ev split: read_loop.splits)
  from body obtain t1 where
    rs: "read_socket this rd err = Got t1" and dr: "doReadPacket cr e t1 nxt = Inr (t, n)"
    by (auto simp: runReadLoop_body_def split: sock_read.splits sum.splits prod.splits)
  have "rtranclp (pipeline_step cr) (this, nxt) (t1, nxt)"
    using pipeline_step.step_socket [OF rs] by blast
  also have "rtranclp (pipeline_step cr) (t1, nxt) (t, n)" using dr by (rule doReadPacket_steps)
  also have "rtranclp (pipeline_step cr) (t, n) (this', nxt')" using rest by (rule Cons.IH)
  finally show ?case .
qed

lemma read_socket_EOF:
  "read_socket this rd (Some EOF) = Break (this\<lparr>Status := TCP_STATUS_NO_STATUS\<rparr>)"
  by (simp add: read_socket_def)

lemma doReadPacket_body_data_frame:
  assumes st: "Status this = TCP_STATUS_UNCONFIRMED \<or> Status this = TCP_STATUS_CONFIRMED"
    and buf: "crbuf this = PutUint16 n @ payload @ rest"
    and len: "length payload = unat n"
    and small: "unat n < 65534"
  shows "doReadPacket_body cr e this 0 =
           handle_frame cr e (this\<lparr>crbuf := rest\<rparr>) (PutUint16 n @ payload)"
proof -
  have l2: "length (PutUint16 n) = 2" by (simp add: PutUint16_def)
  have rd: "Uint16 (PutUint16 n) = n" using Uint16_PutUint16 [of n "[]"] by simp
  have "read_data_frame this 0 = Frame (PutUint16 n @ payload) (this\<lparr>crbuf := rest\<rparr>) n"
    using len small by (simp add: read_data_frame_eq buf l2 rd)
  then show ?thesis using st by (auto simp: doReadPacket_body_def read_frame_def)
qed

text \<open>
  C4. Every step of the running pipelines leaves the status where it is or moves it along
  one arrow of \<open>NO_STATUS \<rightarrow> UNCONFIRMED \<rightarrow> CONFIRMED\<close>, so no state is skipped. Along every
  execution, of any length and in any interleaving of the read loop, the decode loop, the
  write loop and the producers of control packets, the status moves along arrows only: a
  confirmed connection stays confirmed, an unconfirmed one never goes back to
  \<open>NO_STATUS\<close>. Every run of \<open>runReadLoop\<close> that is still reading is such an execution.
  The one reset of the status, on \<open>io.EOF\<close>, is in the round that leaves the read loop
  (\<open>read_socket_EOF\<close>), which is no step of a running pipeline.
\<close>

theorem status_moves_forward_only:
  "(pipeline_step cr (this, nxt) (this', nxt') \<longrightarrow>
      Status this' = Status this \<or> status_arrow (Status this) (Status this')) \<and>
   (rtranclp (pipeline_step cr) (this, nxt) (that, nxt2) \<longrightarrow>
      rtranclp status_arrow (Status this) (Status that) \<and>
      (Status this = TCP_STATUS_CONFIRMED \<longrightarrow> Status that = TCP_STATUS_CONFIRMED) \<and>
      (Status this = TCP_STATUS_UNCONFIRMED \<longrightarrow>
         Status that = TCP_STATUS_UNCONFIRMED \<or> Status that = TCP_STATUS_CONFIRMED)) \<and>
   (runReadLoop cr evs this nxt = Reading fin nxt3 \<longrightarrow>
      rtranclp (pipeline_step cr) (this, nxt) (fin, nxt3))"
proof -
  have one: "Status this' = Status this \<or> status_arrow (Status this) (Status this')"
    if "pipeline_step cr (this, nxt) (this', nxt')"
    using pipeline_step_Status [OF that] by simp
  have many: "rtranclp status_arrow (Status this) (Status that) \<and>
      (Status this = TCP_STATUS_CONFIRMED \<longrightarrow> Status that = TCP_STATUS_CONFIRMED) \<and>
      (Status this = TCP_STATUS_UNCONFIRMED \<longrightarrow>
         Status that = TCP_STATUS_UNCONFIRMED \<or> Status that = TCP_STATUS_CONFIRMED)"
    if "rtranclp (pipeline_step cr) (this, nxt) (that, nxt2)"
  proof -
    have a: "rtranclp status_arrow (Status this) (Status that)"
      using pipeline_steps_Status [OF that] by simp
    from status_arrows_from [OF a] a show ?thesis by blast
  qed
  have loop: "rtranclp (pipeline_step cr) (this, nxt) (fin, nxt3)"
    if "runReadLoop cr evs this nxt = Reading fin nxt3"
    using that by (rule runReadLoop_steps)
  show ?thesis using one many loop by blast
qed

theorem status_moves_forward_only_witness:
  "pipeline_step demo_crypto
     (demo_conn\<lparr>Status := TCP_STATUS_UNCONFIRMED, cwctrlq := [],
        crbuf := PutUint16 25 @ (demo_tag [1] [2] @ [4, 0, 0, 0, 0, 0, 0, 0, 42]) @ [],
        OnConfirmed := False\<rparr>, 0)
     (demo_conn\<lparr>Status := TCP_STATUS_CONFIRMED, cwctrlq := [[5, 0, 0, 0, 0, 0, 0, 0, 42]],
        cwctrldlen := 9, crbuf := [], OnConfirmed := False, RecvNonce := [3]\<rparr>, 0) \<and>
   status_arrow TCP_STATUS_UNCONFIRMED TCP_STATUS_CONFIRMED"
proof -
  let ?ping = "[4, 0, 0, 0, 0, 0, 0, 0, 42] :: bytes"
  let ?c2 = "demo_conn\<lparr>Status := TCP_STATUS_UNCONFIRMED, cwctrlq := [],
        crbuf := PutUint16 25 @ (demo_tag [1] [2] @ ?ping) @ [], OnConfirmed := False\<rparr>"
  let ?c3 = "demo_conn\<lparr>Status := TCP_STATUS_CONFIRMED, cwctrlq := [[5, 0, 0, 0, 0, 0, 0, 0, 42]],
        cwctrldlen := 9, crbuf := [], OnConfirmed := False, RecvNonce := [3]\<rparr>"
  have st: "Status ?c2 = TCP_STATUS_UNCONFIRMED \<or> Status ?c2 = TCP_STATUS_CONFIRMED" by simp
  have buf: "crbuf ?c2 = PutUint16 25 @ (demo_tag [1] [2] @ ?ping) @ []" by simp
  have len: "length (demo_tag [1] [2] @ ?ping) = unat (25 :: uint16)"
    by (simp add: demo_tag_length)
  have small: "unat (25 :: uint16) < 65534" by simp
  have hf: "handle_first_packet demo_crypto demo_env
      (demo_conn\<lparr>Status := TCP_STATUS_UNCONFIRMED, cwctrlq := [], crbuf := [],
         OnConfirmed := False\<rparr>)
      (PutUint16 25 @ demo_tag [1] [2] @ ?ping) = Continue ?c3 0"
    by (subst handle_first_packet_eq [OF demo_first_frame])
       (simp add: demo_conn_def NewTCPSecureConn_def demo_crypto_def demo_env_def)
  have body: "doReadPacket_body demo_crypto demo_env ?c2 0 = Continue ?c3 0"
    unfolding doReadPacket_body_data_frame [OF st buf len small]
    using hf by (simp add: handle_frame_def demo_conn_def NewTCPSecureConn_def)
  have step: "pipeline_step demo_crypto (?c2, 0) (?c3, 0)"
    using body by (rule pipeline_step.step_decode)
  from status_moves_forward_only [of demo_crypto ?c2 0 ?c3 0] step
  have "Status ?c3 = Status ?c2 \<or> status_arrow (Status ?c2) (Status ?c3)" by blast
  then have "status_arrow TCP_STATUS_UNCONFIRMED TCP_STATUS_CONFIRMED" by simp
  with step show ?thesis by blast
qed

end
